theory Spec2Isabelle
  imports Complex_Main "HOL-Library.Signed_Division"
begin

section \<open>The slideshow controller of \<^verbatim>\<open>src/Slideshow.js\<close>\<close>

text \<open>
  The class \<^verbatim>\<open>Slideshow\<close> is embedded as a record of its instance fields together with
  the part of the browser it talks to: the table of pending timers, the clock, the
  listeners registered on the root node and on the window, the class list of the root
  node, the error log of the console and the number of runs of the user's callback.
  Every method is a function from the state before the call to the state after it. A
  method that can throw returns a sum: \<open>Inl\<close> carries the exception and the state
  reached when it was thrown (the mutations made so far persist in JavaScript), \<open>Inr\<close>
  the state after a normal return.

  Indices are JavaScript numbers used as array positions; they are modelled by \<open>int\<close>.
  Slides and indicators are DOM elements: each is an identity and the presence of the
  class \<^verbatim>\<open>active\<close> in its class list. Slides and indicators are taken to be different
  elements of the page.
\<close>

subsection \<open>Data\<close>

datatype error = TypeError | NotFoundError

record element =
  ident :: nat
  active :: bool

record autoplay_config =
  enabled :: bool
  delay :: nat

record controls_config =
  previous_sel :: string
  next_sel :: string
  indicators_sel :: string

text \<open>
  A callback supplied by the user of the class is either not a function or a function;
  what the function does is not the controller's business, and it is taken not to touch
  the controller.
\<close>

datatype callback = NotAFunction | UserFunction

text \<open>
  \<open>transitionDuration\<close> and \<open>delay\<close> are milliseconds; \<open>0\<close> stands for every falsy
  value of the property (zero or absent). \<open>autoplay\<close> and \<open>controls\<close> are \<open>None\<close> when
  the property is falsy. The three selectors of the controls are strings, as the
  documentation of the constructor gives them. The code reads \<^verbatim>\<open>afterInteractionEnd\<close> from the configuration
  itself, not from its \<^verbatim>\<open>autoplay\<close> part.
\<close>

record config =
  elementSelector :: string
  transitionDuration :: nat
  loop :: bool
  controls :: "controls_config option"
  autoplay :: "autoplay_config option"
  afterInteractionEnd :: callback

datatype timer_action = ClearTransition | AdvanceIndex

record timer =
  handle :: nat
  action :: timer_action
  due :: nat

datatype event_target = Node nat | Window

datatype handler = Mouseover | Mouseout | HandleControlsClick | HandleKeydown | HandleResize

record style_node =
  parentNode :: "nat option"

record slideshow =
  rootNode :: nat
  config :: config
  index :: int
  elements :: "element list option"
  indicators :: "element list option"
  isTransitioning :: bool
  transitionTimeout :: "nat option"
  isInteracting :: bool
  autoplayTimeout :: "nat option"
  eventHandlers :: "(event_target \<times> string \<times> handler) list"
  styleNode :: "style_node option"
  rootClassList :: "string list"
  listeners :: "(event_target \<times> string \<times> handler) list"
  timers :: "timer list"
  nextHandle :: nat
  clock :: nat
  console :: "string list"
  callbackRuns :: nat

type_synonym outcome = "(error \<times> slideshow) + slideshow"

subsection \<open>Timers of the browser\<close>

text \<open>
  \<^verbatim>\<open>setTimeout(cb, delay)\<close> enters a new timer in the table and returns its handle;
  \<^verbatim>\<open>clearTimeout(h)\<close> removes the timer with that handle, and does nothing for
  \<^verbatim>\<open>undefined\<close>, \<^verbatim>\<open>null\<close> or a handle that is no longer pending. The two callbacks the
  class passes to \<^verbatim>\<open>setTimeout\<close> are the two values of \<open>timer_action\<close>. A handle is a
  positive integer in a browser, hence truthy: a field holding \<open>Some h\<close> is truthy.
\<close>

definition setTimeout :: "timer_action \<Rightarrow> nat \<Rightarrow> slideshow \<Rightarrow> nat \<times> slideshow" where
  "setTimeout cb ms s =
     (nextHandle s,
      s\<lparr>timers := timers s @ [\<lparr>handle = nextHandle s, action = cb, due = clock s + ms\<rparr>],
        nextHandle := Suc (nextHandle s)\<rparr>)"

definition clearTimeout :: "nat option \<Rightarrow> slideshow \<Rightarrow> slideshow" where
  "clearTimeout h s =
     (case h of
        None \<Rightarrow> s
      | Some k \<Rightarrow> s\<lparr>timers := filter (\<lambda>t. handle t \<noteq> k) (timers s)\<rparr>)"

subsection \<open>Active markers\<close>

text \<open>
  \<^verbatim>\<open>xs.forEach((el, i) => el.classList.toggle('active', i === index))\<close>: the loop over
  the array, with the position counted from \<open>i\<close>.
\<close>

fun toggle_each :: "int \<Rightarrow> nat \<Rightarrow> element list \<Rightarrow> element list" where
  "toggle_each k i [] = []"
| "toggle_each k i (el # els) = el\<lparr>active := (int i = k)\<rparr> # toggle_each k (Suc i) els"

definition setActiveElement :: "int \<Rightarrow> slideshow \<Rightarrow> outcome" where
  "setActiveElement k s =
     (case elements s of
        None \<Rightarrow> Inl (TypeError, s)
      | Some els \<Rightarrow>
          (let s1 = s\<lparr>elements := Some (toggle_each k 0 els)\<rparr>
           in case indicators s1 of
                None \<Rightarrow> Inr s1
              | Some inds \<Rightarrow> Inr (s1\<lparr>indicators := Some (toggle_each k 0 inds)\<rparr>)))"

subsection \<open>Autoplay\<close>

definition startAutoplay :: "slideshow \<Rightarrow> slideshow" where
  "startAutoplay s =
     (case autoplay (config s) of
        None \<Rightarrow> s
      | Some a \<Rightarrow>
          if \<not> enabled a \<or> autoplayTimeout s \<noteq> None then s
          else (let (h, s1) = setTimeout AdvanceIndex (if delay a = 0 then 5000 else delay a) s
                in s1\<lparr>autoplayTimeout := Some h\<rparr>))"

definition stopAutoplay :: "slideshow \<Rightarrow> slideshow" where
  "stopAutoplay s = (clearTimeout (autoplayTimeout s) s)\<lparr>autoplayTimeout := None\<rparr>"

subsection \<open>The index setter\<close>

text \<open>
  The statements of \<^verbatim>\<open>set index\<close> that follow the choice of the new index (lines 75 to
  89): mark the active element, start the transition delay, restart autoplay.
\<close>

definition after_assignment :: "slideshow \<Rightarrow> outcome" where
  "after_assignment s =
     (case setActiveElement (index s) s of
        Inl e \<Rightarrow> Inl e
      | Inr s1 \<Rightarrow>
          (let s2 = (if transitionDuration (config s1) \<noteq> 0
                     then (let (h, s') = setTimeout ClearTransition (transitionDuration (config s1))
                                           (s1\<lparr>isTransitioning := True\<rparr>)
                           in s'\<lparr>transitionTimeout := Some h\<rparr>)
                     else s1)
           in Inr (if \<not> isInteracting s2 then startAutoplay (stopAutoplay s2) else s2)))"

definition set_index :: "int \<Rightarrow> slideshow \<Rightarrow> outcome" where
  "set_index newIndex s =
     (case elements s of
        None \<Rightarrow> Inl (TypeError, s)
      | Some els \<Rightarrow>
          if newIndex > int (length els) - 1 then
            (if \<not> loop (config s) then Inr s else after_assignment (s\<lparr>index := 0\<rparr>))
          else if newIndex < 0 then
            (if \<not> loop (config s) then Inr s
             else after_assignment (s\<lparr>index := int (length els) - 1\<rparr>))
          else after_assignment (s\<lparr>index := newIndex\<rparr>))"

subsection \<open>Timers firing\<close>

text \<open>
  Time passes between two runs of the event loop (\<open>elapse\<close>), and the browser runs the
  callback of a pending timer that is due (\<open>fire\<close>), removing it from the table first.
  The callback of the transition timer is \<^verbatim>\<open>this.isTransitioning = false\<close>, that of the
  autoplay timer is \<^verbatim>\<open>this.index++\<close>: a read of the index and a write of the index
  plus one.
\<close>

definition elapse :: "nat \<Rightarrow> slideshow \<Rightarrow> slideshow" where
  "elapse ms s = s\<lparr>clock := clock s + ms\<rparr>"

definition fire :: "nat \<Rightarrow> slideshow \<Rightarrow> outcome" where
  "fire h s =
     (case find (\<lambda>t. handle t = h \<and> due t \<le> clock s) (timers s) of
        None \<Rightarrow> Inr s
      | Some t \<Rightarrow>
          (let s1 = s\<lparr>timers := filter (\<lambda>u. handle u \<noteq> h) (timers s)\<rparr>
           in case action t of
                ClearTransition \<Rightarrow> Inr (s1\<lparr>isTransitioning := False\<rparr>)
              | AdvanceIndex \<Rightarrow> set_index (index s1 + 1) s1))"

subsection \<open>Keyboard\<close>

text \<open>
  The bounding box of the root node and the height of the window, as read by
  \<^verbatim>\<open>isInView\<close> when the key goes down.
\<close>

record viewport =
  rect_top :: real
  rect_height :: real
  innerHeight :: real

definition isInView :: "viewport \<Rightarrow> bool" where
  "isInView v =
     (if rect_top v \<ge> innerHeight v \<or> rect_top v + rect_height v \<le> 0 then False else True)"

text \<open>
  What a key event handler did to the event, and the value it returned (\<open>None\<close> for
  \<^verbatim>\<open>undefined\<close>; \<^verbatim>\<open>this.index++\<close> and \<^verbatim>\<open>this.index--\<close> have the old index as value).
\<close>

record key_effects =
  defaultPrevented :: bool
  propagationStopped :: bool
  returned :: "int option"

definition handleKeydown ::
  "viewport \<Rightarrow> int \<Rightarrow> slideshow \<Rightarrow> (error \<times> slideshow) + (key_effects \<times> slideshow)" where
  "handleKeydown v keyCode s =
     (if isTransitioning s \<or> \<not> isInView v then
        Inr (\<lparr>defaultPrevented = False, propagationStopped = False, returned = None\<rparr>, s)
      else
        (let isLeftArrow = (keyCode = 37); isRightArrow = (keyCode = 39)
         in if \<not> isLeftArrow \<and> \<not> isRightArrow then
              Inr (\<lparr>defaultPrevented = False, propagationStopped = False, returned = None\<rparr>, s)
            else
              (case (if isRightArrow then set_index (index s + 1) s else set_index (index s - 1) s) of
                 Inl e \<Rightarrow> Inl e
               | Inr s1 \<Rightarrow>
                   Inr (\<lparr>defaultPrevented = True, propagationStopped = True,
                         returned = Some (index s)\<rparr>, s1))))"

subsection \<open>Controls\<close>

text \<open>
  A node of the page as the click handler sees it: its identity and the selectors \<open>sel\<close>
  for which \<^verbatim>\<open>el.matches(sel)\<close> holds. A click event is given by its target followed by
  the chain of \<^verbatim>\<open>parentElement\<close>s; past the end of the chain the parent is \<^verbatim>\<open>null\<close>, and
  the walk of \<^verbatim>\<open>findAncestor\<close> throws on it.
  The selectors of the configuration are taken to be valid selectors: \<^verbatim>\<open>matches\<close> on a
  string that is not one (the empty string, say) throws, which is not modelled.
\<close>

record dom_node =
  node_id :: nat
  matching :: "string list"

definition matches :: "dom_node \<Rightarrow> string \<Rightarrow> bool" where
  "matches el sel = (sel \<in> set (matching el))"

fun findAncestor :: "nat \<Rightarrow> dom_node list \<Rightarrow> string list \<Rightarrow> error + dom_node option" where
  "findAncestor rootId [] selectors = Inl TypeError"
| "findAncestor rootId (target # parents) selectors =
     (if \<not> list_ex (matches target) selectors \<and> node_id target \<noteq> rootId
      then findAncestor rootId parents selectors
      else if node_id target = rootId then Inr None
      else Inr (Some target))"

text \<open>
  \<^verbatim>\<open>this.indicators.forEach((el, i) => { if (target === el) { this.index = i; } })\<close>
\<close>

fun jump_to_indicator :: "nat \<Rightarrow> nat \<Rightarrow> nat list \<Rightarrow> slideshow \<Rightarrow> outcome" where
  "jump_to_indicator target i [] s = Inr s"
| "jump_to_indicator target i (el # els) s =
     (if target = el then
        (case set_index (int i) s of
           Inl e \<Rightarrow> Inl e
         | Inr s1 \<Rightarrow> jump_to_indicator target (Suc i) els s1)
      else jump_to_indicator target (Suc i) els s)"

text \<open>The flag of the result tells whether \<^verbatim>\<open>e.preventDefault()\<close> was called.\<close>

definition prevented :: "outcome \<Rightarrow> (error \<times> slideshow) + (bool \<times> slideshow)" where
  "prevented r = (case r of Inl e \<Rightarrow> Inl e | Inr s \<Rightarrow> Inr (True, s))"

definition handleControlsClick ::
  "dom_node list \<Rightarrow> slideshow \<Rightarrow> (error \<times> slideshow) + (bool \<times> slideshow)" where
  "handleControlsClick path s =
     (if isTransitioning s then Inr (False, s)
      else case controls (config s) of
        None \<Rightarrow> Inl (TypeError, s)
      | Some c \<Rightarrow>
          (case findAncestor (rootNode s) path [previous_sel c, next_sel c, indicators_sel c] of
             Inl e \<Rightarrow> Inl (e, s)
           | Inr None \<Rightarrow> Inr (False, s)
           | Inr (Some target) \<Rightarrow>
               if matches target (previous_sel c) then prevented (set_index (index s - 1) s)
               else if matches target (next_sel c) then prevented (set_index (index s + 1) s)
               else if matches target (indicators_sel c) then
                 (case indicators s of
                    None \<Rightarrow> Inl (TypeError, s)
                  | Some inds \<Rightarrow> prevented (jump_to_indicator (node_id target) 0 (map ident inds) s))
               else Inr (True, s)))"

subsection \<open>Construction, layout and destruction\<close>

text \<open>
  What the page answers to the queries of \<^verbatim>\<open>layout\<close>: the elements matching a selector
  under the root node, in document order, and whether the device reports touch.
\<close>

record page =
  querySelectorAll :: "string \<Rightarrow> element list"
  ontouchstart :: bool

text \<open>
  The constructor receives the configuration already merged with the defaults. The first
  handle the browser gives out is 1.
\<close>

definition constructor :: "nat \<Rightarrow> config \<Rightarrow> slideshow" where
  "constructor rootId cfg =
     \<lparr>rootNode = rootId, config = cfg, index = 0, elements = None, indicators = None,
      isTransitioning = False, transitionTimeout = None, isInteracting = False,
      autoplayTimeout = None, eventHandlers = [], styleNode = None, rootClassList = [],
      listeners = [], timers = [], nextHandle = 1, clock = 0, console = [],
      callbackRuns = 0\<rparr>"

definition on :: "event_target \<Rightarrow> string \<Rightarrow> handler \<Rightarrow> slideshow \<Rightarrow> slideshow" where
  "on node event callback s =
     s\<lparr>eventHandlers := eventHandlers s @ [(node, event, callback)],
       listeners := listeners s @ [(node, event, callback)]\<rparr>"

text \<open>
  \<^verbatim>\<open>rootNode.removeChild(styleNode)\<close> throws a \<^verbatim>\<open>NotFoundError\<close> when the style node is
  not a child of the root node. The text of the style sheet plays no part in the state
  machine and is left out.
\<close>

definition setStyles :: "slideshow \<Rightarrow> outcome" where
  "setStyles s =
     (let s1 = s\<lparr>rootClassList := List.insert ''gallery-root'' (rootClassList s)\<rparr>
      in case styleNode s1 of
           None \<Rightarrow> Inr (s1\<lparr>styleNode := Some \<lparr>parentNode = Some (rootNode s1)\<rparr>\<rparr>)
         | Some sn \<Rightarrow>
             if parentNode sn = Some (rootNode s1)
             then Inr (s1\<lparr>styleNode := Some \<lparr>parentNode = Some (rootNode s1)\<rparr>\<rparr>)
             else Inl (NotFoundError, s1))"

definition getElements :: "page \<Rightarrow> slideshow \<Rightarrow> element list" where
  "getElements pg s = querySelectorAll pg (elementSelector (config s))"

definition getIndicators :: "page \<Rightarrow> slideshow \<Rightarrow> element list option" where
  "getIndicators pg s =
     (case controls (config s) of
        None \<Rightarrow> None
      | Some c \<Rightarrow> if indicators_sel c = [] then None
                  else Some (querySelectorAll pg (indicators_sel c)))"

text \<open>
  \<^verbatim>\<open>executeCallback\<close> logs an error for a callback that is not a function and runs one
  that is; the run is counted.
\<close>

definition executeCallback :: "callback \<Rightarrow> slideshow \<Rightarrow> slideshow" where
  "executeCallback fn s =
     (case fn of
        NotAFunction \<Rightarrow> s\<lparr>console := console s @ [''Callback is not a function'']\<rparr>
      | UserFunction \<Rightarrow> s\<lparr>callbackRuns := Suc (callbackRuns s)\<rparr>)"

text \<open>
  The two arrow functions that \<^verbatim>\<open>setupAutoplay\<close> binds to \<^verbatim>\<open>mouseover\<close> and \<^verbatim>\<open>mouseout\<close>
  of the root node.
\<close>

definition onMouseover :: "slideshow \<Rightarrow> slideshow" where
  "onMouseover s =
     stopAutoplay (s\<lparr>isInteracting := True,
                     rootClassList := List.insert ''interacting'' (rootClassList s)\<rparr>)"

definition onMouseout :: "slideshow \<Rightarrow> slideshow" where
  "onMouseout s =
     startAutoplay
       (executeCallback (afterInteractionEnd (config s))
          (s\<lparr>isInteracting := False,
             rootClassList := removeAll ''interacting'' (rootClassList s)\<rparr>))"

definition setupAutoplay :: "page \<Rightarrow> slideshow \<Rightarrow> slideshow" where
  "setupAutoplay pg s =
     (case autoplay (config s) of
        None \<Rightarrow> s
      | Some a \<Rightarrow>
          if \<not> enabled a then s
          else (let s1 = startAutoplay s
                in if ontouchstart pg then s1
                   else on (Node (rootNode s1)) ''mouseout'' Mouseout
                          (on (Node (rootNode s1)) ''mouseover'' Mouseover s1)))"

definition setupControls :: "page \<Rightarrow> slideshow \<Rightarrow> slideshow" where
  "setupControls pg s =
     (case controls (config s) of
        None \<Rightarrow> s
      | Some c \<Rightarrow>
          on (Node (rootNode s)) ''click'' HandleControlsClick
            (s\<lparr>indicators := getIndicators pg s\<rparr>))"

definition setupKeydown :: "slideshow \<Rightarrow> slideshow" where
  "setupKeydown s = on Window ''keydown'' HandleKeydown s"

text \<open>
  Modelled from the spec: \<^verbatim>\<open>beforeLayout\<close>, \<^verbatim>\<open>afterLayout\<close>, \<^verbatim>\<open>beforeDestroy\<close> and
  \<^verbatim>\<open>afterDestroy\<close> belong to the base class of the package \<^verbatim>\<open>@squarespace/layout-base\<close>,
  which is not part of the sources; the spec calls them extension hooks that are no-ops
  by default, and so they are here. \<^verbatim>\<open>layout\<close> is called without a configuration
  override. Image loading is delegated to a collaborator and touches no field of the
  controller.
\<close>

definition layout :: "page \<Rightarrow> slideshow \<Rightarrow> outcome" where
  "layout pg s =
     (case setStyles s of
        Inl e \<Rightarrow> Inl e
      | Inr s1 \<Rightarrow>
          (case setActiveElement 0 (s1\<lparr>elements := Some (getElements pg s1)\<rparr>) of
             Inl e \<Rightarrow> Inl e
           | Inr s2 \<Rightarrow>
               Inr (on Window ''resize'' HandleResize
                      (setupKeydown (setupControls pg (setupAutoplay pg s2))))))"

text \<open>
  \<^verbatim>\<open>this.styleNode.parentNode.removeChild(this.styleNode)\<close> reads a property of
  \<^verbatim>\<open>undefined\<close> when no style node was ever created, and calls a method of \<^verbatim>\<open>null\<close> when
  the style node has no parent: a \<^verbatim>\<open>TypeError\<close> either way, thrown after the timers and
  the listeners have been dealt with.
\<close>

definition destroy :: "slideshow \<Rightarrow> outcome" where
  "destroy s =
     (let s1 = stopAutoplay s;
          s2 = clearTimeout (transitionTimeout s1) s1;
          s3 = s2\<lparr>listeners := foldl (\<lambda>ls h. remove1 h ls) (listeners s2) (eventHandlers s2),
                  eventHandlers := []\<rparr>
      in case styleNode s3 of
           None \<Rightarrow> Inl (TypeError, s3)
         | Some sn \<Rightarrow>
             (case parentNode sn of
                None \<Rightarrow> Inl (TypeError, s3)
              | Some p \<Rightarrow> Inr (s3\<lparr>styleNode := Some (sn\<lparr>parentNode := None\<rparr>)\<rparr>)))"

subsection \<open>Observations\<close>

text \<open>
  The state an outcome ends in, the positions of a list of elements that carry the
  active marker, and the pending timers of each of the two kinds.
\<close>

definition state_of :: "outcome \<Rightarrow> slideshow" where
  "state_of r = (case r of Inl (e, s) \<Rightarrow> s | Inr s \<Rightarrow> s)"

definition active_positions :: "element list \<Rightarrow> nat list" where
  "active_positions els = filter (\<lambda>i. active (els ! i)) [0..<length els]"

definition pendingClears :: "slideshow \<Rightarrow> timer list" where
  "pendingClears s = filter (\<lambda>t. action t = ClearTransition) (timers s)"

definition pendingAdvances :: "slideshow \<Rightarrow> timer list" where
  "pendingAdvances s = filter (\<lambda>t. action t = AdvanceIndex) (timers s)"

text \<open>
  Two properties of the states the browser can produce: every pending autoplay timer is
  the one whose handle the controller holds, and every handle in use is older than the
  next one the browser gives out.
\<close>

definition autoplay_tracked :: "slideshow \<Rightarrow> bool" where
  "autoplay_tracked s =
     (case autoplayTimeout s of
        None \<Rightarrow> pendingAdvances s = []
      | Some h \<Rightarrow> length (pendingAdvances s) \<le> 1 \<and> list_all (\<lambda>t. handle t = h) (pendingAdvances s))"

definition handles_below :: "slideshow \<Rightarrow> bool" where
  "handles_below s =
     (list_all (\<lambda>t. handle t < nextHandle s) (timers s)
      \<and> (case autoplayTimeout s of None \<Rightarrow> True | Some h \<Rightarrow> h < nextHandle s))"

definition timers_ok :: "slideshow \<Rightarrow> bool" where
  "timers_ok s = (autoplay_tracked s \<and> handles_below s)"

text \<open>The listeners registered with the browser are the ones the controller tracks.\<close>

definition listeners_tracked :: "slideshow \<Rightarrow> bool" where
  "listeners_tracked s = (listeners s = eventHandlers s)"

text \<open>
  The states a controller can be in: it is constructed, and then its methods are called,
  its listeners run and its timers fire, in any order. A call that throws leaves the
  controller in the state reached at the throw.
\<close>

inductive reachable :: "slideshow \<Rightarrow> bool" where
  constructed: "reachable (constructor r cfg)"
| laid_out: "reachable s \<Longrightarrow> reachable (state_of (layout pg s))"
| index_set: "reachable s \<Longrightarrow> reachable (state_of (set_index R s))"
| started: "reachable s \<Longrightarrow> reachable (startAutoplay s)"
| stopped: "reachable s \<Longrightarrow> reachable (stopAutoplay s)"
| mouse_over: "reachable s \<Longrightarrow> reachable (onMouseover s)"
| mouse_out: "reachable s \<Longrightarrow> reachable (onMouseout s)"
| key_down: "reachable s \<Longrightarrow> reachable (state_of (map_sum id snd (handleKeydown v k s)))"
| clicked: "reachable s \<Longrightarrow> reachable (state_of (map_sum id snd (handleControlsClick path s)))"
| time_passed: "reachable s \<Longrightarrow> reachable (elapse ms s)"
| timer_fired: "reachable s \<Longrightarrow> reachable (state_of (fire h s))"
| destroyed: "reachable s \<Longrightarrow> reachable (state_of (destroy s))"

text \<open>Whether the style node exists and has a parent.\<close>

definition style_attached :: "slideshow \<Rightarrow> bool" where
  "style_attached s = (case styleNode s of None \<Rightarrow> False | Some sn \<Rightarrow> parentNode sn \<noteq> None)"

text \<open>
  The wrap-around law in the words of the specification, to be compared with what the
  setter computes.
\<close>

definition wrap_around :: "int \<Rightarrow> int \<Rightarrow> int" where
  "wrap_around R N = ((R mod N) + N) mod N"

subsection \<open>An example page\<close>

text \<open>
  A page with \<open>n\<close> slides and \<open>n\<close> indicators on a touch device, a configuration with
  controls and with autoplay every 500 ms, and the controller after \<^verbatim>\<open>layout\<close> on them.
\<close>

definition example_config :: "bool \<Rightarrow> nat \<Rightarrow> config" where
  "example_config lp ms =
     \<lparr>elementSelector = ''.slide'', transitionDuration = ms, loop = lp,
      controls = Some \<lparr>previous_sel = ''.prev'', next_sel = ''.next'', indicators_sel = ''.dot''\<rparr>,
      autoplay = Some \<lparr>enabled = True, delay = 500\<rparr>,
      afterInteractionEnd = UserFunction\<rparr>"

definition example_page :: "nat \<Rightarrow> page" where
  "example_page n =
     \<lparr>querySelectorAll = (\<lambda>sel.
        if sel = ''.slide'' then map (\<lambda>i. \<lparr>ident = 10 + i, active = False\<rparr>) [0..<n]
        else if sel = ''.dot'' then map (\<lambda>i. \<lparr>ident = 100 + i, active = False\<rparr>) [0..<n]
        else []),
      ontouchstart = True\<rparr>"

definition example_live :: "nat \<Rightarrow> bool \<Rightarrow> nat \<Rightarrow> slideshow" where
  "example_live n lp ms = state_of (layout (example_page n) (constructor 1 (example_config lp ms)))"

text \<open>
  A root node in view. A controller locked by a transition: three slides, a transition of
  1000 ms, index set to 1. And a run with two index changes 500 ms apart: the index is set
  to 1 at time 0, and at time 500 the autoplay timer (handle 3) fires and advances it.
\<close>

definition example_viewport :: viewport where
  "example_viewport = \<lparr>rect_top = 0, rect_height = 400, innerHeight = 800\<rparr>"

definition example_locked :: slideshow where
  "example_locked = state_of (set_index 1 (example_live 3 True 1000))"

definition example_two_changes :: slideshow where
  "example_two_changes =
     state_of (fire 3 (elapse 500 (state_of (set_index 1 (example_live 3 True 1000)))))"

section \<open>Properties\<close>

subsection \<open>Auxiliary facts\<close>

lemma toggle_each_length: "length (toggle_each k i els) = length els"
  by (induction els arbitrary: i) simp_all

lemma toggle_each_nth:
  "j < length els \<Longrightarrow> active (toggle_each k i els ! j) = (int (i + j) = k)"
proof (induction els arbitrary: i j)
  case Nil
  then show ?case by simp
next
  case (Cons el els)
  show ?case
  proof (cases j)
    case 0
    then show ?thesis by simp
  next
    case (Suc m)
    with Cons.prems have "m < length els" by simp
    from Cons.IH [OF this, of "Suc i"] Suc show ?thesis by simp
  qed
qed

lemma filter_position:
  "filter (\<lambda>j. int j = k) [0..<n] = (if 0 \<le> k \<and> k < int n then [nat k] else [])"
  by (induction n) auto

lemma active_positions_toggle:
  "active_positions (toggle_each k 0 els) =
     (if 0 \<le> k \<and> k < int (length els) then [nat k] else [])"
proof -
  have "filter (\<lambda>j. active (toggle_each k 0 els ! j)) [0..<length els]
          = filter (\<lambda>j. int j = k) [0..<length els]"
    by (rule filter_cong) (simp_all add: toggle_each_nth)
  then show ?thesis
    by (simp add: active_positions_def toggle_each_length filter_position)
qed

lemma startAutoplay_frame:
  "index (startAutoplay s) = index s \<and> elements (startAutoplay s) = elements s
   \<and> indicators (startAutoplay s) = indicators s \<and> config (startAutoplay s) = config s
   \<and> isTransitioning (startAutoplay s) = isTransitioning s
   \<and> transitionTimeout (startAutoplay s) = transitionTimeout s
   \<and> isInteracting (startAutoplay s) = isInteracting s
   \<and> clock (startAutoplay s) = clock s"
  by (simp add: startAutoplay_def setTimeout_def split: option.splits)

lemma stopAutoplay_frame:
  "index (stopAutoplay s) = index s \<and> elements (stopAutoplay s) = elements s
   \<and> indicators (stopAutoplay s) = indicators s \<and> config (stopAutoplay s) = config s
   \<and> isTransitioning (stopAutoplay s) = isTransitioning s
   \<and> transitionTimeout (stopAutoplay s) = transitionTimeout s
   \<and> isInteracting (stopAutoplay s) = isInteracting s
   \<and> clock (stopAutoplay s) = clock s \<and> nextHandle (stopAutoplay s) = nextHandle s"
  by (simp add: stopAutoplay_def clearTimeout_def split: option.splits)

lemma after_assignment_Inr:
  assumes "elements s = Some els"
  shows "\<exists>s'. after_assignment s = Inr s' \<and> index s' = index s
           \<and> elements s' = Some (toggle_each (index s) 0 els)
           \<and> indicators s' = map_option (toggle_each (index s) 0) (indicators s)
           \<and> config s' = config s"
  using assms
  by (simp add: after_assignment_def setActiveElement_def setTimeout_def Let_def
        startAutoplay_frame stopAutoplay_frame split: option.splits)

lemma set_index_accepted:
  assumes "elements s = Some els"
    and "loop (config s) \<or> (0 \<le> R \<and> R \<le> int (length els) - 1)"
  shows "\<exists>s'. set_index R s = Inr s'
           \<and> index s' = (if int (length els) - 1 < R then 0
                          else if R < 0 then int (length els) - 1 else R)
           \<and> elements s' = Some (toggle_each (index s') 0 els)
           \<and> indicators s' = map_option (toggle_each (index s') 0) (indicators s)
           \<and> config s' = config s"
proof -
  let ?k = "if int (length els) - 1 < R then 0 else if R < 0 then int (length els) - 1 else R"
  have e: "elements (s\<lparr>index := ?k\<rparr>) = Some els"
    using assms(1) by simp
  have "set_index R s = after_assignment (s\<lparr>index := ?k\<rparr>)"
    using assms by (auto simp add: set_index_def)
  with after_assignment_Inr [OF e] show ?thesis
    by auto
qed

lemma set_index_rejected:
  assumes "elements s = Some els" and "\<not> loop (config s)"
    and "R < 0 \<or> int (length els) - 1 < R"
  shows "set_index R s = Inr s"
  using assms by (auto simp add: set_index_def)

lemma example_live_fields:
  "elements (example_live n lp ms)
     = Some (toggle_each 0 0 (map (\<lambda>i. \<lparr>ident = 10 + i, active = False\<rparr>) [0..<n]))"
  "config (example_live n lp ms) = example_config lp ms"
  by (simp_all add: example_live_def state_of_def layout_def example_page_def constructor_def
      example_config_def setStyles_def getElements_def setActiveElement_def setupAutoplay_def
      setupControls_def setupKeydown_def on_def getIndicators_def startAutoplay_def
      setTimeout_def Let_def)

subsection \<open>The contract of the index setter\<close>

text \<open>
  C1. With at least one slide, a request \<open>R\<close> beyond the last slide gives index 0 when
  looping is enabled and is rejected (the state is returned unchanged) otherwise; a
  negative request gives the last index when looping is enabled and is rejected
  otherwise; any other request gives \<open>R\<close> itself. With five slides and looping enabled
  the request \<open>-1\<close> gives index 4, slide 4 active and slide 0 inactive.
\<close>

theorem set_index_contract:
  assumes "elements s = Some els" and "1 \<le> length els"
  shows "(int (length els) - 1 < R \<longrightarrow>
            (if loop (config s) then \<exists>s'. set_index R s = Inr s' \<and> index s' = 0
             else set_index R s = Inr s))
       \<and> (R < 0 \<longrightarrow>
            (if loop (config s)
             then \<exists>s'. set_index R s = Inr s' \<and> index s' = int (length els) - 1
             else set_index R s = Inr s))
       \<and> (0 \<le> R \<and> R \<le> int (length els) - 1 \<longrightarrow>
            (\<exists>s'. set_index R s = Inr s' \<and> index s' = R))
       \<and> (length els = 5 \<and> loop (config s) \<longrightarrow>
            (\<exists>s' els'. set_index (- 1) s = Inr s' \<and> index s' = 4 \<and> elements s' = Some els'
               \<and> active (els' ! 4) \<and> \<not> active (els' ! 0)))"
proof (intro conjI impI)
  assume "int (length els) - 1 < R"
  then show "if loop (config s) then \<exists>s'. set_index R s = Inr s' \<and> index s' = 0
             else set_index R s = Inr s"
    using set_index_accepted [OF assms(1), of R] set_index_rejected [OF assms(1), of R]
    by (cases "loop (config s)") auto
next
  assume "R < 0"
  then show "if loop (config s)
             then \<exists>s'. set_index R s = Inr s' \<and> index s' = int (length els) - 1
             else set_index R s = Inr s"
    using set_index_accepted [OF assms(1), of R] set_index_rejected [OF assms(1), of R] assms(2)
    by (cases "loop (config s)") auto
next
  assume "0 \<le> R \<and> R \<le> int (length els) - 1"
  then show "\<exists>s'. set_index R s = Inr s' \<and> index s' = R"
    using set_index_accepted [OF assms(1), of R] by auto
next
  assume a: "length els = 5 \<and> loop (config s)"
  then obtain s' where s': "set_index (- 1) s = Inr s'" "index s' = 4"
      "elements s' = Some (toggle_each (index s') 0 els)"
    using set_index_accepted [OF assms(1), of "- 1"] by auto
  have "active (toggle_each 4 0 els ! 4)" "\<not> active (toggle_each 4 0 els ! 0)"
    using a by (simp_all add: toggle_each_nth)
  with s' show "\<exists>s' els'. set_index (- 1) s = Inr s' \<and> index s' = 4 \<and> elements s' = Some els'
               \<and> active (els' ! 4) \<and> \<not> active (els' ! 0)"
    by auto
qed

theorem set_index_contract_witness:
  "\<exists>s' els'. set_index (- 1) (example_live 5 True 0) = Inr s' \<and> index s' = 4
      \<and> elements s' = Some els' \<and> active (els' ! 4) \<and> \<not> active (els' ! 0)"
proof -
  have l: "loop (config (example_live 5 True 0))"
    by (simp add: example_live_fields example_config_def)
  show ?thesis
    using set_index_contract [where s = "example_live 5 True 0" and R = "- 1",
        OF example_live_fields(1)] l
    by (simp add: toggle_each_length)
qed

subsection \<open>The wrap-around law\<close>

text \<open>
  The law of the specification names the same number whether \<open>mod\<close> is read as the
  remainder of floored division or, as \<^verbatim>\<open>%\<close> in JavaScript, of truncated division.
\<close>

lemma wrap_around_mod: "0 < N \<Longrightarrow> wrap_around R N = R mod N"
  by (simp add: wrap_around_def)

lemma mod_last_iff:
  fixes R N :: int
  assumes "0 < N"
  shows "(R mod N = N - 1) = (N dvd R + 1)"
proof
  assume h: "R mod N = N - 1"
  have e: "N * (R div N) + R mod N = R"
    by (rule mult_div_mod_eq)
  have "R + 1 = N * (R div N) + N"
    using e h by linarith
  then have "R + 1 = N * (R div N + 1)"
    by (simp add: algebra_simps)
  then show "N dvd R + 1" by (metis dvd_triv_left)
next
  assume "N dvd R + 1"
  then obtain c where c: "R + 1 = N * c" by (auto simp: dvd_def)
  then have "R = N * (c - 1) + (N - 1)" by (simp add: algebra_simps)
  then show "R mod N = N - 1"
    using assms by (intro int_mod_pos_eq [where q = "c - 1"]) auto
qed

lemma smod_nonneg: "0 \<le> k \<Longrightarrow> 0 < l \<Longrightarrow> k smod l = k mod (l::int)"
  by (cases "k = 0") (simp_all add: signed_modulo_int_def)

lemma wrap_around_truncated:
  fixes R N :: int
  assumes "0 < N"
  shows "((R smod N) + N) smod N = wrap_around R N"
proof (cases "0 \<le> R")
  case True
  then have "R smod N = R mod N" using assms by (simp add: smod_nonneg)
  moreover have "0 \<le> R mod N + N" using assms by (simp add: add_nonneg_nonneg)
  ultimately show ?thesis using assms by (simp add: smod_nonneg wrap_around_def)
next
  case False
  then have s: "R smod N = - ((- R) mod N)"
    using assms by (simp add: signed_modulo_int_def)
  have b: "0 \<le> (- R) mod N" "(- R) mod N < N" using assms by simp_all
  then have "0 \<le> - ((- R) mod N) + N" by simp
  then have "(- ((- R) mod N) + N) smod N = (- ((- R) mod N) + N) mod N"
    using assms by (simp add: smod_nonneg)
  also have "\<dots> = (- ((- R) mod N)) mod N" by simp
  also have "\<dots> = (- (- R)) mod N" by (simp add: mod_minus_eq)
  finally show ?thesis using s assms by (simp add: wrap_around_mod)
qed


lemma example_live_loop: "loop (config (example_live n lp ms)) = lp"
  by (simp add: example_live_fields example_config_def)

lemma example_live_length:
  "map_option length (elements (example_live n lp ms)) = Some n"
  by (simp add: example_live_fields toggle_each_length)

text \<open>
  C2 as stated (with looping enabled the new index is \<open>((R mod N) + N) mod N\<close> for every
  request, also those more than one step out of range) fails: with five slides the
  request 7 gives index 0 where the law gives 2, and the request \<open>-2\<close> gives index 4 where
  the law gives 3.
\<close>

theorem wrap_law_counterexample:
  "loop (config (example_live 5 True 0))
   \<and> map_option length (elements (example_live 5 True 0)) = Some 5
   \<and> map_sum fst index (set_index 7 (example_live 5 True 0)) = Inr 0
   \<and> wrap_around 7 5 = 2
   \<and> map_sum fst index (set_index (- 2) (example_live 5 True 0)) = Inr 4
   \<and> wrap_around (- 2) 5 = 3"
proof -
  obtain s' where "set_index 7 (example_live 5 True 0) = Inr s'" "index s' = 0"
    using set_index_accepted [where s = "example_live 5 True 0" and R = 7,
        OF example_live_fields(1)]
    by (auto simp add: example_live_loop toggle_each_length)
  moreover obtain s'' where "set_index (- 2) (example_live 5 True 0) = Inr s''" "index s'' = 4"
    using set_index_accepted [where s = "example_live 5 True 0" and R = "- 2",
        OF example_live_fields(1)]
    by (auto simp add: example_live_loop toggle_each_length)
  ultimately show ?thesis
    by (simp add: example_live_loop example_live_length wrap_around_def)
qed

text \<open>
  C2, amended. With at least one slide and looping enabled the new index is 0 for a
  request beyond the last slide, the last index for a negative request and the request
  itself otherwise. It agrees with the wrap-around law for every request at most one
  step out of range (\<open>-1 \<le> R \<le> N\<close>), and in general exactly when the request is in
  range, or beyond the last slide and a multiple of \<open>N\<close>, or negative with \<open>R + 1\<close> a
  multiple of \<open>N\<close>.
\<close>

theorem set_index_loop_result:
  assumes "elements s = Some els" and "1 \<le> length els" and "loop (config s)"
  shows "\<exists>s'. set_index R s = Inr s'
           \<and> index s' = (if int (length els) - 1 < R then 0
                          else if R < 0 then int (length els) - 1 else R)
           \<and> (- 1 \<le> R \<and> R \<le> int (length els) \<longrightarrow>
                 index s' = wrap_around R (int (length els)))
           \<and> (index s' = wrap_around R (int (length els)) \<longleftrightarrow>
                 (0 \<le> R \<and> R \<le> int (length els) - 1)
                 \<or> (int (length els) - 1 < R \<and> int (length els) dvd R)
                 \<or> (R < 0 \<and> int (length els) dvd R + 1))"
proof -
  let ?N = "int (length els)"
  let ?k = "if ?N - 1 < R then 0 else if R < 0 then ?N - 1 else R"
  have N: "0 < ?N" using assms(2) by (cases els) simp_all
  obtain s' where s': "set_index R s = Inr s'" "index s' = ?k"
    using set_index_accepted [OF assms(1), of R] assms(3) by auto
  have w: "wrap_around R ?N = R mod ?N"
    using N by (rule wrap_around_mod)
  have iff: "(?k = R mod ?N) \<longleftrightarrow>
               (0 \<le> R \<and> R \<le> ?N - 1) \<or> (?N - 1 < R \<and> ?N dvd R) \<or> (R < 0 \<and> ?N dvd R + 1)"
  proof (cases "?N - 1 < R")
    case True
    then show ?thesis
      using N by (auto simp add: mod_eq_0_iff_dvd dest: sym)
  next
    case False
    show ?thesis
    proof (cases "R < 0")
      case True
      have "(?N - 1 = R mod ?N) = (?N dvd R + 1)"
        using mod_last_iff [OF N, of R] by auto
      with True False show ?thesis by auto
    next
      case nonneg: False
      with False have "R mod ?N = R" by simp
      with nonneg False show ?thesis by auto
    qed
  qed
  have one: "- 1 \<le> R \<and> R \<le> ?N \<longrightarrow> ?k = R mod ?N"
  proof
    assume r: "- 1 \<le> R \<and> R \<le> ?N"
    consider "R = - 1" | "R = ?N" | "0 \<le> R \<and> R \<le> ?N - 1" using r by linarith
    then show "?k = R mod ?N"
    proof cases
      case 1
      then have "?N dvd R + 1" by simp
      with 1 show ?thesis unfolding iff by simp
    next
      case 2
      then show ?thesis unfolding iff by simp
    next
      case 3
      then show ?thesis unfolding iff by simp
    qed
  qed
  from s' one iff show ?thesis
    unfolding w by (intro exI [of _ s']) simp
qed

theorem set_index_loop_result_witness:
  "\<exists>s'. set_index 5 (example_live 5 True 0) = Inr s' \<and> index s' = 0
         \<and> index s' = wrap_around 5 5"
proof -
  show ?thesis
    using set_index_loop_result [where s = "example_live 5 True 0" and R = 5,
        OF example_live_fields(1)]
    by (simp add: example_live_loop toggle_each_length)
qed

subsection \<open>Rejected requests\<close>

text \<open>
  C3. With at least one slide and looping disabled, a request outside \<open>[0, N-1]\<close> returns
  the state it was given: the stored index, the markers of every slide and indicator,
  the transition lock, the stored timer handles and the table of pending timers are all
  unchanged.
\<close>

theorem set_index_reject_noop:
  assumes "elements s = Some els" and "1 \<le> length els" and "\<not> loop (config s)"
    and "R < 0 \<or> int (length els) - 1 < R"
  shows "set_index R s = Inr s"
  using assms by (simp add: set_index_rejected)

lemma example_after_2:
  "elements (state_of (set_index 2 (example_live 3 False 0)))
     = Some (toggle_each 2 0 (toggle_each 0 0 (map (\<lambda>i. \<lparr>ident = 10 + i, active = False\<rparr>) [0..<3])))
   \<and> index (state_of (set_index 2 (example_live 3 False 0))) = 2
   \<and> \<not> loop (config (state_of (set_index 2 (example_live 3 False 0))))"
proof -
  obtain s' where "set_index 2 (example_live 3 False 0) = Inr s'" "index s' = 2"
    "elements s' = Some (toggle_each (index s') 0
        (toggle_each 0 0 (map (\<lambda>i. \<lparr>ident = 10 + i, active = False\<rparr>) [0..<3])))"
    "config s' = config (example_live 3 False 0)"
    using set_index_accepted [where s = "example_live 3 False 0" and R = 2,
        OF example_live_fields(1)]
    by (auto simp add: toggle_each_length)
  then show ?thesis
    by (simp add: state_of_def example_live_loop)
qed

theorem set_index_reject_noop_witness:
  "index (state_of (set_index 2 (example_live 3 False 0))) = 2
   \<and> set_index 3 (state_of (set_index 2 (example_live 3 False 0)))
       = Inr (state_of (set_index 2 (example_live 3 False 0)))"
proof -
  have "set_index 3 (state_of (set_index 2 (example_live 3 False 0)))
       = Inr (state_of (set_index 2 (example_live 3 False 0)))"
    using example_after_2
    by (intro set_index_reject_noop [where els = "toggle_each 2 0 (toggle_each 0 0
          (map (\<lambda>i. \<lparr>ident = 10 + i, active = False\<rparr>) [0..<3]))"])
       (simp_all add: toggle_each_length)
  with example_after_2 show ?thesis by simp
qed

subsection \<open>One active slide\<close>

text \<open>
  C7. With at least one slide, after an accepted request (looping enabled, or the request
  in range) the new index is in range and the only slide carrying the active marker is
  the one at the new index; when indicators are present in the same number, the only
  indicator carrying the marker is the one at the same position.
\<close>

theorem accepted_transition_single_active:
  assumes "elements s = Some els" and "1 \<le> length els"
    and "loop (config s) \<or> (0 \<le> R \<and> R \<le> int (length els) - 1)"
  shows "\<exists>s' els'. set_index R s = Inr s' \<and> elements s' = Some els'
           \<and> length els' = length els
           \<and> 0 \<le> index s' \<and> index s' < int (length els)
           \<and> active_positions els' = [nat (index s')]
           \<and> (\<forall>inds. indicators s = Some inds \<and> length inds = length els \<longrightarrow>
                 (\<exists>inds'. indicators s' = Some inds' \<and> length inds' = length inds
                    \<and> active_positions inds' = [nat (index s')]))"
proof -
  obtain s' where s': "set_index R s = Inr s'"
      "index s' = (if int (length els) - 1 < R then 0
                   else if R < 0 then int (length els) - 1 else R)"
      "elements s' = Some (toggle_each (index s') 0 els)"
      "indicators s' = map_option (toggle_each (index s') 0) (indicators s)"
    using set_index_accepted [OF assms(1) assms(3)] by auto
  have b: "0 \<le> index s'" "index s' < int (length els)"
    using s'(2) assms(2) by (auto split: if_splits)
  have a: "active_positions (toggle_each (index s') 0 els) = [nat (index s')]"
    using b by (simp add: active_positions_toggle)
  have i: "\<forall>inds. indicators s = Some inds \<and> length inds = length els \<longrightarrow>
                 (\<exists>inds'. indicators s' = Some inds' \<and> length inds' = length inds
                    \<and> active_positions inds' = [nat (index s')])"
    using b s'(4) by (simp add: active_positions_toggle toggle_each_length)
  let ?E = "toggle_each (index s') 0 els"
  have "set_index R s = Inr s' \<and> elements s' = Some ?E \<and> length ?E = length els
           \<and> 0 \<le> index s' \<and> index s' < int (length els)
           \<and> active_positions ?E = [nat (index s')]
           \<and> (\<forall>inds. indicators s = Some inds \<and> length inds = length els \<longrightarrow>
                 (\<exists>inds'. indicators s' = Some inds' \<and> length inds' = length inds
                    \<and> active_positions inds' = [nat (index s')]))"
    using s'(1) s'(3) b a i by (simp only: toggle_each_length simp_thms)
  then show ?thesis by blast
qed


lemma example_live_indicators:
  "indicators (example_live n lp ms)
     = Some (map (\<lambda>i. \<lparr>ident = 100 + i, active = False\<rparr>) [0..<n])"
  by (simp add: example_live_def state_of_def layout_def example_page_def constructor_def
      example_config_def setStyles_def getElements_def setActiveElement_def setupAutoplay_def
      setupControls_def setupKeydown_def on_def getIndicators_def startAutoplay_def
      setTimeout_def Let_def)

theorem accepted_transition_single_active_witness:
  "\<exists>s' els' inds'. set_index 1 (example_live 3 False 0) = Inr s'
      \<and> elements s' = Some els' \<and> active_positions els' = [nat (index s')]
      \<and> indicators s' = Some inds' \<and> active_positions inds' = [nat (index s')]"
proof -
  obtain s' els' where h: "set_index 1 (example_live 3 False 0) = Inr s'"
      "elements s' = Some els'" "active_positions els' = [nat (index s')]"
      "\<forall>inds. indicators (example_live 3 False 0) = Some inds \<and> length inds = 3 \<longrightarrow>
         (\<exists>inds'. indicators s' = Some inds' \<and> length inds' = length inds
            \<and> active_positions inds' = [nat (index s')])"
    using accepted_transition_single_active [where s = "example_live 3 False 0" and R = 1,
        OF example_live_fields(1)]
    by (auto simp add: toggle_each_length)
  from h(4) obtain inds' where "indicators s' = Some inds'"
      "active_positions inds' = [nat (index s')]"
    by (auto simp add: example_live_indicators)
  with h show ?thesis by blast
qed


subsection \<open>What an accepted request does to the timers\<close>

lemma after_assignment_timers:
  assumes "elements s = Some els" and "handles_below s"
  shows "\<exists>s'. after_assignment s = Inr s'
     \<and> (transitionDuration (config s) \<noteq> 0 \<longrightarrow>
           isTransitioning s' \<and> transitionTimeout s' = Some (nextHandle s)
           \<and> \<lparr>handle = nextHandle s, action = ClearTransition,
                due = clock s + transitionDuration (config s)\<rparr> \<in> set (timers s'))
     \<and> (\<not> isInteracting s \<longrightarrow>
           (\<forall>h. autoplayTimeout s = Some h \<longrightarrow> h \<notin> handle ` set (timers s'))
           \<and> (\<forall>a. autoplay (config s) = Some a \<and> enabled a \<longrightarrow>
                 (\<exists>h'. autoplayTimeout s' = Some h' \<and> nextHandle s \<le> h'
                    \<and> \<lparr>handle = h', action = AdvanceIndex,
                         due = clock s + (if delay a = 0 then 5000 else delay a)\<rparr>
                          \<in> set (timers s'))))"
  using assms
  by (auto simp add: after_assignment_def setActiveElement_def setTimeout_def Let_def
        startAutoplay_def stopAutoplay_def clearTimeout_def handles_below_def list_all_iff
        split: option.splits)

lemma after_assignment_lock:
  assumes "elements s = Some els"
  shows "\<exists>s'. after_assignment s = Inr s'
     \<and> (transitionDuration (config s) \<noteq> 0 \<longrightarrow>
           isTransitioning s' \<and> transitionTimeout s' = Some (nextHandle s)
           \<and> nextHandle s < nextHandle s')
     \<and> (transitionDuration (config s) = 0 \<longrightarrow>
           isTransitioning s' = isTransitioning s \<and> transitionTimeout s' = transitionTimeout s)"
  using assms
  by (auto simp add: after_assignment_def setActiveElement_def setTimeout_def Let_def
        startAutoplay_def stopAutoplay_def clearTimeout_def
        split: option.splits)


lemma example_live_timer_fields:
  "index (example_live n lp ms) = 0"
  "isTransitioning (example_live n lp ms) = False"
  "isInteracting (example_live n lp ms) = False"
  "autoplayTimeout (example_live n lp ms) = Some 1"
  "timers (example_live n lp ms) = [\<lparr>handle = 1, action = AdvanceIndex, due = 500\<rparr>]"
  "nextHandle (example_live n lp ms) = 2"
  "clock (example_live n lp ms) = 0"
  by (simp_all add: example_live_def state_of_def layout_def example_page_def constructor_def
      example_config_def setStyles_def getElements_def setActiveElement_def setupAutoplay_def
      setupControls_def setupKeydown_def on_def getIndicators_def startAutoplay_def
      setTimeout_def Let_def)

lemma example_live_handles_below: "handles_below (example_live n lp ms)"
  by (simp add: handles_below_def example_live_timer_fields)

subsection \<open>Timers in reachable states\<close>

text \<open>
  Every operation keeps the pending autoplay timers tracked by the held handle and the
  handles in use below the next handle, so both hold in every reachable state.
\<close>

lemma timers_ok_update [simp]:
  "timers_ok (s\<lparr>index := a\<rparr>) = timers_ok s"
  "timers_ok (s\<lparr>elements := b\<rparr>) = timers_ok s"
  "timers_ok (s\<lparr>indicators := c\<rparr>) = timers_ok s"
  "timers_ok (s\<lparr>isTransitioning := d\<rparr>) = timers_ok s"
  "timers_ok (s\<lparr>transitionTimeout := e\<rparr>) = timers_ok s"
  "timers_ok (s\<lparr>isInteracting := f\<rparr>) = timers_ok s"
  "timers_ok (s\<lparr>eventHandlers := g\<rparr>) = timers_ok s"
  "timers_ok (s\<lparr>styleNode := h\<rparr>) = timers_ok s"
  "timers_ok (s\<lparr>rootClassList := i\<rparr>) = timers_ok s"
  "timers_ok (s\<lparr>listeners := j\<rparr>) = timers_ok s"
  "timers_ok (s\<lparr>clock := k\<rparr>) = timers_ok s"
  "timers_ok (s\<lparr>console := l\<rparr>) = timers_ok s"
  "timers_ok (s\<lparr>callbackRuns := m\<rparr>) = timers_ok s"
  by (simp_all add: timers_ok_def autoplay_tracked_def handles_below_def pendingAdvances_def
        cong: option.case_cong)

lemma filter_pending_le:
  "length (filter (\<lambda>t. handle t \<noteq> k \<and> action t = a) xs) \<le> length (filter (\<lambda>t. action t = a) xs)"
  by (induction xs) auto

lemma timers_ok_clearTimeout: "timers_ok s \<Longrightarrow> timers_ok (clearTimeout h s)"
  by (auto simp add: timers_ok_def autoplay_tracked_def handles_below_def pendingAdvances_def
        clearTimeout_def list_all_iff filter_empty_conv
        intro: le_trans [OF filter_pending_le]
        split: option.splits)

lemma timers_ok_lock:
  "timers_ok s \<Longrightarrow> timers_ok (snd (setTimeout ClearTransition ms s))"
  by (auto simp add: timers_ok_def autoplay_tracked_def handles_below_def pendingAdvances_def
        setTimeout_def list_all_iff split: option.splits)

lemma timers_ok_stopAutoplay: "timers_ok s \<Longrightarrow> timers_ok (stopAutoplay s)"
  by (auto simp add: timers_ok_def autoplay_tracked_def handles_below_def pendingAdvances_def
        stopAutoplay_def clearTimeout_def list_all_iff filter_empty_conv
        split: option.splits)

lemma timers_ok_startAutoplay: "timers_ok s \<Longrightarrow> timers_ok (startAutoplay s)"
  by (auto simp add: timers_ok_def autoplay_tracked_def handles_below_def pendingAdvances_def
        startAutoplay_def setTimeout_def list_all_iff filter_empty_conv
        split: option.splits)

lemma timers_ok_setActiveElement: "timers_ok s \<Longrightarrow> timers_ok (state_of (setActiveElement k s))"
  by (simp add: setActiveElement_def state_of_def Let_def split: option.splits)

lemma timers_ok_after_assignment:
  assumes "timers_ok s"
  shows "timers_ok (state_of (after_assignment s))"
proof (cases "setActiveElement (index s) s")
  case (Inl e)
  with timers_ok_setActiveElement [OF assms, of "index s"] show ?thesis
    by (simp add: after_assignment_def state_of_def)
next
  case (Inr s1)
  with timers_ok_setActiveElement [OF assms, of "index s"] have s1: "timers_ok s1"
    by (simp add: state_of_def)
  define s2 where "s2 = (if transitionDuration (config s1) \<noteq> 0
             then (let (h, s') = setTimeout ClearTransition (transitionDuration (config s1))
                                   (s1\<lparr>isTransitioning := True\<rparr>)
                   in s'\<lparr>transitionTimeout := Some h\<rparr>)
             else s1)"
  have eq: "after_assignment s
              = Inr (if \<not> isInteracting s2 then startAutoplay (stopAutoplay s2) else s2)"
    by (simp add: after_assignment_def Inr s2_def Let_def)
  have "timers_ok s2"
    using s1 timers_ok_lock [of "s1\<lparr>isTransitioning := True\<rparr>" "transitionDuration (config s1)"]
    by (simp add: s2_def split_def Let_def)
  then show ?thesis
    unfolding eq by (simp add: state_of_def timers_ok_startAutoplay timers_ok_stopAutoplay)
qed

lemma timers_ok_set_index:
  assumes "timers_ok s"
  shows "timers_ok (state_of (set_index R s))"
proof -
  have a: "timers_ok (state_of (after_assignment (s\<lparr>index := k\<rparr>)))" for k
    using assms by (intro timers_ok_after_assignment) simp
  have b: "timers_ok (state_of (Inr s))" "timers_ok (state_of (Inl (TypeError, s)))"
    using assms by (simp_all add: state_of_def)
  show ?thesis
    by (simp add: set_index_def a b split: option.splits)
qed

lemma timers_ok_on: "timers_ok (on n e c s) = timers_ok s"
  by (simp add: on_def)

lemma timers_ok_constructor: "timers_ok (constructor r cfg)"
  by (simp add: timers_ok_def autoplay_tracked_def handles_below_def pendingAdvances_def
        constructor_def)

lemma timers_ok_layout:
  assumes "timers_ok s"
  shows "timers_ok (state_of (layout pg s))"
proof (cases "setStyles s")
  case (Inl e)
  then have "state_of (layout pg s) = s\<lparr>rootClassList := List.insert ''gallery-root'' (rootClassList s)\<rparr>"
    by (auto simp add: layout_def state_of_def setStyles_def Let_def
          split: option.splits if_splits)
  with assms show ?thesis by simp
next
  case (Inr s1)
  then have s1: "timers_ok s1"
    using assms by (auto simp add: setStyles_def Let_def split: option.splits if_splits)
  let ?t = "s1\<lparr>elements := Some (getElements pg s1)\<rparr>"
  have t: "timers_ok (state_of (setActiveElement 0 ?t))"
    using s1 by (intro timers_ok_setActiveElement) simp
  show ?thesis
  proof (cases "setActiveElement 0 ?t")
    case (Inl e)
    with t Inr show ?thesis by (simp add: layout_def state_of_def)
  next
    case s2: (Inr s2)
    with t have "timers_ok s2" by (simp add: state_of_def)
    then have "timers_ok (setupAutoplay pg s2)"
      by (simp add: setupAutoplay_def timers_ok_on timers_ok_startAutoplay Let_def
            split: option.splits)
    then have "timers_ok (setupControls pg (setupAutoplay pg s2))"
      by (simp add: setupControls_def timers_ok_on split: option.splits)
    then show ?thesis
      using Inr s2 by (simp add: layout_def state_of_def setupKeydown_def timers_ok_on)
  qed
qed

lemma timers_ok_onMouseover: "timers_ok s \<Longrightarrow> timers_ok (onMouseover s)"
  by (simp add: onMouseover_def timers_ok_stopAutoplay)

lemma timers_ok_onMouseout: "timers_ok s \<Longrightarrow> timers_ok (onMouseout s)"
  by (simp add: onMouseout_def executeCallback_def timers_ok_startAutoplay
        split: callback.splits)

lemma timers_ok_handleKeydown:
  assumes "timers_ok s"
  shows "timers_ok (state_of (map_sum id snd (handleKeydown v k s)))"
proof -
  have a: "timers_ok (state_of (map_sum id snd (case r of Inl e \<Rightarrow> Inl e | Inr s1 \<Rightarrow> Inr (x, s1))))"
    if "timers_ok (state_of r)" for r :: outcome and x :: key_effects
    using that by (cases r) (simp_all add: state_of_def)
  show ?thesis
    using assms a [OF timers_ok_set_index [OF assms]]
    by (simp add: handleKeydown_def Let_def state_of_def [of "Inr _"])
qed

lemma timers_ok_jump_to_indicator:
  "timers_ok s \<Longrightarrow> timers_ok (state_of (jump_to_indicator target i els s))"
proof (induction els arbitrary: i s)
  case Nil
  then show ?case by (simp add: state_of_def)
next
  case (Cons el els)
  show ?case
  proof (cases "target = el")
    case False
    with Cons show ?thesis by simp
  next
    case True
    have k: "timers_ok (state_of (set_index (int i) s))"
      using Cons.prems by (rule timers_ok_set_index)
    show ?thesis
    proof (cases "set_index (int i) s")
      case (Inl e)
      with k True show ?thesis by simp
    next
      case (Inr s1)
      with k have "timers_ok s1" by (simp add: state_of_def)
      from Cons.IH [OF this] Inr True show ?thesis by simp
    qed
  qed
qed

lemma timers_ok_prevented:
  "timers_ok (state_of r) \<Longrightarrow> timers_ok (state_of (map_sum id snd (prevented r)))"
  by (cases r) (simp_all add: prevented_def state_of_def)

lemma timers_ok_handleControlsClick:
  assumes "timers_ok s"
  shows "timers_ok (state_of (map_sum id snd (handleControlsClick path s)))"
  using assms
  by (auto simp add: handleControlsClick_def state_of_def [of "Inl _"] state_of_def [of "Inr _"]
        intro!: timers_ok_prevented timers_ok_set_index timers_ok_jump_to_indicator
        split: option.splits sum.splits)

lemma timers_ok_elapse: "timers_ok s \<Longrightarrow> timers_ok (elapse ms s)"
  by (simp add: elapse_def)

lemma timers_ok_fire:
  assumes "timers_ok s"
  shows "timers_ok (state_of (fire h s))"
proof -
  have "timers_ok (clearTimeout (Some h) s)"
    using assms by (rule timers_ok_clearTimeout)
  then have c: "timers_ok (s\<lparr>timers := filter (\<lambda>u. handle u \<noteq> h) (timers s)\<rparr>)"
    by (simp add: clearTimeout_def)
  show ?thesis
    using assms c timers_ok_set_index [OF c]
    by (simp add: fire_def Let_def state_of_def [of "Inr _"]
          split: option.splits timer_action.splits)
qed

lemma timers_ok_destroy:
  assumes "timers_ok s"
  shows "timers_ok (state_of (destroy s))"
proof -
  have "timers_ok (clearTimeout (transitionTimeout (stopAutoplay s)) (stopAutoplay s))"
    using assms by (intro timers_ok_clearTimeout timers_ok_stopAutoplay)
  then show ?thesis
    by (simp add: destroy_def Let_def state_of_def split: option.splits)
qed

lemma reachable_timers_ok: "reachable s \<Longrightarrow> timers_ok s"
proof (induction rule: reachable.induct)
  case (constructed r cfg)
  show ?case by (rule timers_ok_constructor)
next
  case (laid_out s pg)
  then show ?case by (simp add: timers_ok_layout)
next
  case (index_set s R)
  then show ?case by (simp add: timers_ok_set_index)
next
  case (started s)
  then show ?case by (simp add: timers_ok_startAutoplay)
next
  case (stopped s)
  then show ?case by (simp add: timers_ok_stopAutoplay)
next
  case (mouse_over s)
  then show ?case by (simp add: timers_ok_onMouseover)
next
  case (mouse_out s)
  then show ?case by (simp add: timers_ok_onMouseout)
next
  case (key_down s v k)
  then show ?case by (simp add: timers_ok_handleKeydown)
next
  case (clicked s path)
  then show ?case by (simp add: timers_ok_handleControlsClick)
next
  case (time_passed s ms)
  then show ?case by (simp add: timers_ok_elapse)
next
  case (timer_fired s h)
  then show ?case by (simp add: timers_ok_fire)
next
  case (destroyed s)
  then show ?case by (simp add: timers_ok_destroy)
qed


subsection \<open>No slides\<close>

text \<open>
  C6 as stated (with no slides every assignment to the index is a no-op, whatever the
  loop setting) fails when looping is enabled: on a page without slides and a transition
  of 1000 ms, the request \<open>-1\<close> changes the stored index from 0 to \<open>-1\<close>, sets the
  transition lock and replaces the pending timer 1 by the timers 2 and 3.
\<close>

theorem empty_slide_set_counterexample:
  "map_option length (elements (example_live 0 True 1000)) = Some 0
   \<and> loop (config (example_live 0 True 1000))
   \<and> index (example_live 0 True 1000) = 0
   \<and> map_sum fst index (set_index (- 1) (example_live 0 True 1000)) = Inr (- 1)
   \<and> isTransitioning (example_live 0 True 1000) = False
   \<and> map_sum fst isTransitioning (set_index (- 1) (example_live 0 True 1000)) = Inr True
   \<and> map handle (timers (example_live 0 True 1000)) = [1]
   \<and> map_sum fst (map handle \<circ> timers) (set_index (- 1) (example_live 0 True 1000)) = Inr [2, 3]"
  by (simp add: example_live_def state_of_def layout_def example_page_def constructor_def
      example_config_def setStyles_def getElements_def setActiveElement_def setupAutoplay_def
      setupControls_def setupKeydown_def on_def getIndicators_def startAutoplay_def
      setTimeout_def set_index_def after_assignment_def stopAutoplay_def clearTimeout_def
      Let_def)

lemma after_assignment_interacting:
  assumes "elements s = Some els" and "isInteracting s"
  shows "\<exists>s'. after_assignment s = Inr s' \<and> autoplayTimeout s' = autoplayTimeout s
     \<and> timers s' = (if transitionDuration (config s) \<noteq> 0
                     then timers s @ [\<lparr>handle = nextHandle s, action = ClearTransition,
                                       due = clock s + transitionDuration (config s)\<rparr>]
                     else timers s)"
  using assms
  by (simp add: after_assignment_def setActiveElement_def setTimeout_def Let_def
        split: option.splits)

lemma handles_below_index: "handles_below (s\<lparr>index := k\<rparr>) = handles_below s"
  by (simp add: handles_below_def cong: option.case_cong)

text \<open>
  C6, amended. With no slides, no slide is marked active by an assignment to the index
  (the slide set stays empty). With looping disabled every assignment returns the state
  unchanged. With looping enabled every assignment is accepted: the stored index becomes
  0 for a request \<open>R \<ge> 0\<close> and \<open>N - 1 = -1\<close> for a negative one, the indicators are
  marked for that index, and the steps of an accepted request run. When
  \<open>transitionDuration\<close> is not zero the transition lock is set and a timer clearing it
  after that delay is stored and pending. While the pointer is over the root node the
  autoplay timer is left alone, the table of timers growing by the clear timer only;
  otherwise the autoplay timer held before is no longer pending and, autoplay being
  enabled, a timer with a new handle is pending, due one autoplay delay from now. The
  statements about the table of timers are for states whose handles in use are below the
  next handle, as they are in every reachable state.
\<close>

theorem empty_slide_set:
  assumes "elements s = Some []"
  shows "(\<not> loop (config s) \<longrightarrow> set_index R s = Inr s)
       \<and> (loop (config s) \<longrightarrow>
            (\<exists>s'. set_index R s = Inr s' \<and> elements s' = Some []
               \<and> index s' = (if 0 \<le> R then 0 else - 1)
               \<and> indicators s' = map_option (toggle_each (index s') 0) (indicators s)
               \<and> (transitionDuration (config s) \<noteq> 0 \<longrightarrow>
                     isTransitioning s' \<and> transitionTimeout s' = Some (nextHandle s)
                     \<and> nextHandle s < nextHandle s')
               \<and> (transitionDuration (config s) = 0 \<longrightarrow>
                     isTransitioning s' = isTransitioning s
                     \<and> transitionTimeout s' = transitionTimeout s)
               \<and> (isInteracting s \<longrightarrow>
                     autoplayTimeout s' = autoplayTimeout s
                     \<and> timers s' = (if transitionDuration (config s) \<noteq> 0
                                     then timers s @ [\<lparr>handle = nextHandle s,
                                            action = ClearTransition,
                                            due = clock s + transitionDuration (config s)\<rparr>]
                                     else timers s))
               \<and> (handles_below s \<longrightarrow>
                     (transitionDuration (config s) \<noteq> 0 \<longrightarrow>
                        \<lparr>handle = nextHandle s, action = ClearTransition,
                         due = clock s + transitionDuration (config s)\<rparr> \<in> set (timers s'))
                     \<and> (\<not> isInteracting s \<longrightarrow>
                          (\<forall>h. autoplayTimeout s = Some h \<longrightarrow> h \<notin> handle ` set (timers s'))
                          \<and> (\<forall>a. autoplay (config s) = Some a \<and> enabled a \<longrightarrow>
                                (\<exists>h'. autoplayTimeout s' = Some h' \<and> nextHandle s \<le> h'
                                   \<and> \<lparr>handle = h', action = AdvanceIndex,
                                        due = clock s + (if delay a = 0 then 5000 else delay a)\<rparr>
                                         \<in> set (timers s')))))))"
proof (intro conjI impI)
  assume "\<not> loop (config s)"
  then show "set_index R s = Inr s"
    using assms by (simp add: set_index_def)
next
  assume l: "loop (config s)"
  let ?t = "s\<lparr>index := (if 0 \<le> R then 0 else - 1)\<rparr>"
  have e: "elements ?t = Some []" using assms by simp
  have eq: "set_index R s = after_assignment ?t"
    using assms l by (simp add: set_index_def)
  obtain s' where a: "after_assignment ?t = Inr s'" "index s' = index ?t"
      "elements s' = Some (toggle_each (index ?t) 0 [])"
      "indicators s' = map_option (toggle_each (index ?t) 0) (indicators ?t)"
    using after_assignment_Inr [OF e] by blast
  from after_assignment_lock [OF e] a(1)
  have k: "(transitionDuration (config ?t) \<noteq> 0 \<longrightarrow>
           isTransitioning s' \<and> transitionTimeout s' = Some (nextHandle ?t)
           \<and> nextHandle ?t < nextHandle s')
     \<and> (transitionDuration (config ?t) = 0 \<longrightarrow>
           isTransitioning s' = isTransitioning ?t \<and> transitionTimeout s' = transitionTimeout ?t)"
    by auto
  have i: "isInteracting s \<longrightarrow>
             autoplayTimeout s' = autoplayTimeout s
             \<and> timers s' = (if transitionDuration (config s) \<noteq> 0
                             then timers s @ [\<lparr>handle = nextHandle s, action = ClearTransition,
                                    due = clock s + transitionDuration (config s)\<rparr>]
                             else timers s)"
  proof
    assume "isInteracting s"
    then have "isInteracting ?t" by simp
    from after_assignment_interacting [OF e this] a(1)
    show "autoplayTimeout s' = autoplayTimeout s
             \<and> timers s' = (if transitionDuration (config s) \<noteq> 0
                             then timers s @ [\<lparr>handle = nextHandle s, action = ClearTransition,
                                    due = clock s + transitionDuration (config s)\<rparr>]
                             else timers s)"
      by auto
  qed
  have h: "handles_below s \<longrightarrow>
             (transitionDuration (config s) \<noteq> 0 \<longrightarrow>
                \<lparr>handle = nextHandle s, action = ClearTransition,
                 due = clock s + transitionDuration (config s)\<rparr> \<in> set (timers s'))
             \<and> (\<not> isInteracting s \<longrightarrow>
                  (\<forall>h. autoplayTimeout s = Some h \<longrightarrow> h \<notin> handle ` set (timers s'))
                  \<and> (\<forall>a. autoplay (config s) = Some a \<and> enabled a \<longrightarrow>
                        (\<exists>h'. autoplayTimeout s' = Some h' \<and> nextHandle s \<le> h'
                           \<and> \<lparr>handle = h', action = AdvanceIndex,
                                due = clock s + (if delay a = 0 then 5000 else delay a)\<rparr>
                                 \<in> set (timers s'))))"
  proof
    assume "handles_below s"
    then have "handles_below ?t" by (simp add: handles_below_index)
    from after_assignment_timers [OF e this] a(1)
    show "(transitionDuration (config s) \<noteq> 0 \<longrightarrow>
                \<lparr>handle = nextHandle s, action = ClearTransition,
                 due = clock s + transitionDuration (config s)\<rparr> \<in> set (timers s'))
             \<and> (\<not> isInteracting s \<longrightarrow>
                  (\<forall>h. autoplayTimeout s = Some h \<longrightarrow> h \<notin> handle ` set (timers s'))
                  \<and> (\<forall>a. autoplay (config s) = Some a \<and> enabled a \<longrightarrow>
                        (\<exists>h'. autoplayTimeout s' = Some h' \<and> nextHandle s \<le> h'
                           \<and> \<lparr>handle = h', action = AdvanceIndex,
                                due = clock s + (if delay a = 0 then 5000 else delay a)\<rparr>
                                 \<in> set (timers s'))))"
      by auto
  qed
  have "set_index R s = Inr s' \<and> elements s' = Some []
               \<and> index s' = (if 0 \<le> R then 0 else - 1)
               \<and> indicators s' = map_option (toggle_each (index s') 0) (indicators s)
               \<and> (transitionDuration (config s) \<noteq> 0 \<longrightarrow>
                     isTransitioning s' \<and> transitionTimeout s' = Some (nextHandle s)
                     \<and> nextHandle s < nextHandle s')
               \<and> (transitionDuration (config s) = 0 \<longrightarrow>
                     isTransitioning s' = isTransitioning s
                     \<and> transitionTimeout s' = transitionTimeout s)"
    using a eq k by simp
  with i h show "\<exists>s'. set_index R s = Inr s' \<and> elements s' = Some []
               \<and> index s' = (if 0 \<le> R then 0 else - 1)
               \<and> indicators s' = map_option (toggle_each (index s') 0) (indicators s)
               \<and> (transitionDuration (config s) \<noteq> 0 \<longrightarrow>
                     isTransitioning s' \<and> transitionTimeout s' = Some (nextHandle s)
                     \<and> nextHandle s < nextHandle s')
               \<and> (transitionDuration (config s) = 0 \<longrightarrow>
                     isTransitioning s' = isTransitioning s
                     \<and> transitionTimeout s' = transitionTimeout s)
               \<and> (isInteracting s \<longrightarrow>
                     autoplayTimeout s' = autoplayTimeout s
                     \<and> timers s' = (if transitionDuration (config s) \<noteq> 0
                                     then timers s @ [\<lparr>handle = nextHandle s,
                                            action = ClearTransition,
                                            due = clock s + transitionDuration (config s)\<rparr>]
                                     else timers s))
               \<and> (handles_below s \<longrightarrow>
                     (transitionDuration (config s) \<noteq> 0 \<longrightarrow>
                        \<lparr>handle = nextHandle s, action = ClearTransition,
                         due = clock s + transitionDuration (config s)\<rparr> \<in> set (timers s'))
                     \<and> (\<not> isInteracting s \<longrightarrow>
                          (\<forall>h. autoplayTimeout s = Some h \<longrightarrow> h \<notin> handle ` set (timers s'))
                          \<and> (\<forall>a. autoplay (config s) = Some a \<and> enabled a \<longrightarrow>
                                (\<exists>h'. autoplayTimeout s' = Some h' \<and> nextHandle s \<le> h'
                                   \<and> \<lparr>handle = h', action = AdvanceIndex,
                                        due = clock s + (if delay a = 0 then 5000 else delay a)\<rparr>
                                         \<in> set (timers s')))))"
    by (intro exI [of _ s']) blast
qed

theorem empty_slide_set_witness:
  "set_index 4 (example_live 0 False 1000) = Inr (example_live 0 False 1000)
   \<and> (\<exists>s'. set_index 4 (example_live 0 True 1000) = Inr s' \<and> elements s' = Some []
           \<and> index s' = 0 \<and> isTransitioning s' \<and> transitionTimeout s' = Some 2
           \<and> \<lparr>handle = 2, action = ClearTransition, due = 1000\<rparr> \<in> set (timers s')
           \<and> 1 \<notin> handle ` set (timers s')
           \<and> (\<exists>h'. autoplayTimeout s' = Some h' \<and> 2 \<le> h'
                  \<and> \<lparr>handle = h', action = AdvanceIndex, due = 500\<rparr> \<in> set (timers s')))"
proof -
  have e: "elements (example_live 0 lp 1000) = Some []" for lp
    by (simp add: example_live_fields)
  have c: "config (example_live 0 lp 1000) = example_config lp 1000" for lp
    by (rule example_live_fields(2))
  show ?thesis
    using empty_slide_set [where s = "example_live 0 False 1000" and R = 4, OF e]
      empty_slide_set [where s = "example_live 0 True 1000" and R = 4, OF e]
    by (simp add: example_live_loop c example_config_def example_live_timer_fields
          example_live_handles_below) blast
qed

subsection \<open>Requesting the current index\<close>

text \<open>
  C10. With at least one slide, requesting the index that is already stored (and in range)
  runs the whole accepted path: the markers are applied again, the slide at the index
  being the only active one; when \<open>transitionDuration\<close> is not zero the lock is set and
  a timer clearing it after that delay is pending and stored; and when the interaction
  flag is false the autoplay timer held before is no longer pending and, autoplay being
  enabled, a timer with a new handle is pending, due one autoplay delay from now.
\<close>

theorem same_index_is_accepted:
  assumes "elements s = Some els" and "1 \<le> length els"
    and "0 \<le> index s" and "index s \<le> int (length els) - 1" and "handles_below s"
  shows "\<exists>s'. set_index (index s) s = Inr s' \<and> index s' = index s
     \<and> elements s' = Some (toggle_each (index s) 0 els)
     \<and> indicators s' = map_option (toggle_each (index s) 0) (indicators s)
     \<and> active_positions (toggle_each (index s) 0 els) = [nat (index s)]
     \<and> (transitionDuration (config s) \<noteq> 0 \<longrightarrow>
           isTransitioning s' \<and> transitionTimeout s' = Some (nextHandle s)
           \<and> \<lparr>handle = nextHandle s, action = ClearTransition,
                due = clock s + transitionDuration (config s)\<rparr> \<in> set (timers s'))
     \<and> (\<not> isInteracting s \<longrightarrow>
           (\<forall>h. autoplayTimeout s = Some h \<longrightarrow> h \<notin> handle ` set (timers s'))
           \<and> (\<forall>a. autoplay (config s) = Some a \<and> enabled a \<longrightarrow>
                 (\<exists>h'. autoplayTimeout s' = Some h' \<and> nextHandle s \<le> h'
                    \<and> \<lparr>handle = h', action = AdvanceIndex,
                         due = clock s + (if delay a = 0 then 5000 else delay a)\<rparr>
                          \<in> set (timers s'))))"
proof -
  have eq: "set_index (index s) s = after_assignment s"
    using assms(1,3,4) by (simp add: set_index_def)
  obtain s' where a: "after_assignment s = Inr s'" "index s' = index s"
      "elements s' = Some (toggle_each (index s) 0 els)"
      "indicators s' = map_option (toggle_each (index s) 0) (indicators s)"
    using after_assignment_Inr [OF assms(1)] by blast
  have p: "active_positions (toggle_each (index s) 0 els) = [nat (index s)]"
    using assms(3,4) by (simp add: active_positions_toggle)
  from after_assignment_timers [OF assms(1) assms(5)] a(1)
  have t: "(transitionDuration (config s) \<noteq> 0 \<longrightarrow>
           isTransitioning s' \<and> transitionTimeout s' = Some (nextHandle s)
           \<and> \<lparr>handle = nextHandle s, action = ClearTransition,
                due = clock s + transitionDuration (config s)\<rparr> \<in> set (timers s'))
     \<and> (\<not> isInteracting s \<longrightarrow>
           (\<forall>h. autoplayTimeout s = Some h \<longrightarrow> h \<notin> handle ` set (timers s'))
           \<and> (\<forall>a. autoplay (config s) = Some a \<and> enabled a \<longrightarrow>
                 (\<exists>h'. autoplayTimeout s' = Some h' \<and> nextHandle s \<le> h'
                    \<and> \<lparr>handle = h', action = AdvanceIndex,
                         due = clock s + (if delay a = 0 then 5000 else delay a)\<rparr>
                          \<in> set (timers s'))))"
    by auto
  show ?thesis
    unfolding eq using a p t by (intro exI [of _ s']) (simp only: simp_thms)
qed

theorem same_index_is_accepted_witness:
  "\<exists>s'. set_index 0 (example_live 3 True 1000) = Inr s' \<and> index s' = 0
      \<and> isTransitioning s' \<and> transitionTimeout s' = Some 2
      \<and> \<lparr>handle = 2, action = ClearTransition, due = 1000\<rparr> \<in> set (timers s')
      \<and> 1 \<notin> handle ` set (timers s')
      \<and> (\<exists>h'. autoplayTimeout s' = Some h' \<and> 2 \<le> h'
             \<and> \<lparr>handle = h', action = AdvanceIndex, due = 500\<rparr> \<in> set (timers s'))"
proof -
  have c: "config (example_live 3 True 1000) = example_config True 1000"
    by (rule example_live_fields(2))
  show ?thesis
    using same_index_is_accepted [where s = "example_live 3 True 1000",
        OF example_live_fields(1) _ _ _ example_live_handles_below]
    by (simp add: example_live_timer_fields toggle_each_length c example_config_def) blast
qed

subsection \<open>Click and keyboard handlers\<close>

lemma set_index_result:
  assumes "elements s = Some els"
  shows "\<exists>s'. set_index R s = Inr s'
     \<and> index s' = (if int (length els) - 1 < R then (if loop (config s) then 0 else index s)
                    else if R < 0 then (if loop (config s) then int (length els) - 1 else index s)
                    else R)
     \<and> (\<not> loop (config s) \<and> (int (length els) - 1 < R \<or> R < 0) \<longrightarrow> s' = s)"
proof (cases "loop (config s) \<or> (0 \<le> R \<and> R \<le> int (length els) - 1)")
  case True
  from set_index_accepted [OF assms True] True show ?thesis by auto
next
  case False
  then have "set_index R s = Inr s"
    using assms by (intro set_index_rejected) auto
  with False show ?thesis by auto
qed

text \<open>
  C9. While the transition lock is set, the click handler and the keydown handler return
  the state unchanged and leave the event alone. With the lock clear and the root node in
  view (its top above the bottom of the window and its bottom below the top), a keydown
  of the right arrow (39) is a write of the index plus one, a keydown of the left arrow
  (37) a write of the index minus one, both through the setter and its rules, and a
  keydown of any other key returns the state unchanged. On a laid out controller the
  arrow keys return normally with the event consumed, and the stored index afterwards is
  the index plus one (minus one) when that is in range, 0 (the last index) when it is
  beyond the last slide (negative) and looping is enabled, and the old index, with the
  whole state unchanged, when it is out of range and looping is disabled.
\<close>

theorem handlers_respect_lock:
  "(isTransitioning s \<longrightarrow>
      handleControlsClick path s = Inr (False, s)
      \<and> handleKeydown v k s
          = Inr (\<lparr>defaultPrevented = False, propagationStopped = False, returned = None\<rparr>, s))
   \<and> (\<not> isTransitioning s \<and> rect_top v < innerHeight v \<and> 0 < rect_top v + rect_height v \<longrightarrow>
        map_sum id snd (handleKeydown v 39 s) = set_index (index s + 1) s
        \<and> map_sum id snd (handleKeydown v 37 s) = set_index (index s - 1) s
        \<and> (k \<noteq> 37 \<and> k \<noteq> 39 \<longrightarrow>
             handleKeydown v k s
               = Inr (\<lparr>defaultPrevented = False, propagationStopped = False, returned = None\<rparr>, s))
        \<and> (\<forall>els. elements s = Some els \<longrightarrow>
              (\<exists>s'. handleKeydown v 39 s
                       = Inr (\<lparr>defaultPrevented = True, propagationStopped = True,
                               returned = Some (index s)\<rparr>, s')
                 \<and> index s' = (if int (length els) - 1 < index s + 1
                                then (if loop (config s) then 0 else index s)
                                else if index s + 1 < 0
                                then (if loop (config s) then int (length els) - 1 else index s)
                                else index s + 1)
                 \<and> (\<not> loop (config s)
                      \<and> (int (length els) - 1 < index s + 1 \<or> index s + 1 < 0) \<longrightarrow> s' = s))
              \<and> (\<exists>s'. handleKeydown v 37 s
                       = Inr (\<lparr>defaultPrevented = True, propagationStopped = True,
                               returned = Some (index s)\<rparr>, s')
                 \<and> index s' = (if int (length els) - 1 < index s - 1
                                then (if loop (config s) then 0 else index s)
                                else if index s - 1 < 0
                                then (if loop (config s) then int (length els) - 1 else index s)
                                else index s - 1)
                 \<and> (\<not> loop (config s)
                      \<and> (int (length els) - 1 < index s - 1 \<or> index s - 1 < 0) \<longrightarrow> s' = s))))"
proof (intro conjI impI allI)
  assume "isTransitioning s"
  then show "handleControlsClick path s = Inr (False, s)"
    by (simp add: handleControlsClick_def)
  from \<open>isTransitioning s\<close> show "handleKeydown v k s
          = Inr (\<lparr>defaultPrevented = False, propagationStopped = False, returned = None\<rparr>, s)"
    by (simp add: handleKeydown_def)
next
  assume a: "\<not> isTransitioning s \<and> rect_top v < innerHeight v \<and> 0 < rect_top v + rect_height v"
  then have g: "\<not> (isTransitioning s \<or> \<not> isInView v)"
    by (simp add: isInView_def)
  show r: "map_sum id snd (handleKeydown v 39 s) = set_index (index s + 1) s"
    using g by (simp add: handleKeydown_def Let_def split: sum.splits)
  show l: "map_sum id snd (handleKeydown v 37 s) = set_index (index s - 1) s"
    using g by (simp add: handleKeydown_def Let_def split: sum.splits)
  show "handleKeydown v k s
          = Inr (\<lparr>defaultPrevented = False, propagationStopped = False, returned = None\<rparr>, s)"
    if "k \<noteq> 37 \<and> k \<noteq> 39"
    using g that by (simp add: handleKeydown_def Let_def)
  fix els
  assume e: "elements s = Some els"
  obtain s1 where s1: "set_index (index s + 1) s = Inr s1"
    "index s1 = (if int (length els) - 1 < index s + 1
                 then (if loop (config s) then 0 else index s)
                 else if index s + 1 < 0
                 then (if loop (config s) then int (length els) - 1 else index s)
                 else index s + 1)"
    "\<not> loop (config s) \<and> (int (length els) - 1 < index s + 1 \<or> index s + 1 < 0) \<longrightarrow> s1 = s"
    using set_index_result [OF e, of "index s + 1"] by blast
  have "handleKeydown v 39 s
          = Inr (\<lparr>defaultPrevented = True, propagationStopped = True,
                  returned = Some (index s)\<rparr>, s1)"
    using g s1(1) by (simp add: handleKeydown_def Let_def)
  with s1(2,3) show "\<exists>s'. handleKeydown v 39 s
                       = Inr (\<lparr>defaultPrevented = True, propagationStopped = True,
                               returned = Some (index s)\<rparr>, s')
                 \<and> index s' = (if int (length els) - 1 < index s + 1
                                then (if loop (config s) then 0 else index s)
                                else if index s + 1 < 0
                                then (if loop (config s) then int (length els) - 1 else index s)
                                else index s + 1)
                 \<and> (\<not> loop (config s)
                      \<and> (int (length els) - 1 < index s + 1 \<or> index s + 1 < 0) \<longrightarrow> s' = s)"
    by blast
  obtain s2 where s2: "set_index (index s - 1) s = Inr s2"
    "index s2 = (if int (length els) - 1 < index s - 1
                 then (if loop (config s) then 0 else index s)
                 else if index s - 1 < 0
                 then (if loop (config s) then int (length els) - 1 else index s)
                 else index s - 1)"
    "\<not> loop (config s) \<and> (int (length els) - 1 < index s - 1 \<or> index s - 1 < 0) \<longrightarrow> s2 = s"
    using set_index_result [OF e, of "index s - 1"] by blast
  have "handleKeydown v 37 s
          = Inr (\<lparr>defaultPrevented = True, propagationStopped = True,
                  returned = Some (index s)\<rparr>, s2)"
    using g s2(1) by (simp add: handleKeydown_def Let_def)
  with s2(2,3) show "\<exists>s'. handleKeydown v 37 s
                       = Inr (\<lparr>defaultPrevented = True, propagationStopped = True,
                               returned = Some (index s)\<rparr>, s')
                 \<and> index s' = (if int (length els) - 1 < index s - 1
                                then (if loop (config s) then 0 else index s)
                                else if index s - 1 < 0
                                then (if loop (config s) then int (length els) - 1 else index s)
                                else index s - 1)
                 \<and> (\<not> loop (config s)
                      \<and> (int (length els) - 1 < index s - 1 \<or> index s - 1 < 0) \<longrightarrow> s' = s)"
    by blast
qed

lemma example_locked_transitioning: "isTransitioning example_locked"
  by code_simp

theorem handlers_respect_lock_witness:
  "handleControlsClick [\<lparr>node_id = 7, matching = [''.next'']\<rparr>, \<lparr>node_id = 1, matching = []\<rparr>]
       example_locked = Inr (False, example_locked)
   \<and> handleKeydown example_viewport 39 example_locked
       = Inr (\<lparr>defaultPrevented = False, propagationStopped = False, returned = None\<rparr>,
              example_locked)
   \<and> map_sum id snd (handleKeydown example_viewport 39 (example_live 3 True 0))
       = set_index 1 (example_live 3 True 0)
   \<and> map_sum id snd (handleKeydown example_viewport 37 (example_live 3 True 0))
       = set_index (- 1) (example_live 3 True 0)
   \<and> handleKeydown example_viewport 13 (example_live 3 True 0)
       = Inr (\<lparr>defaultPrevented = False, propagationStopped = False, returned = None\<rparr>,
              example_live 3 True 0)
   \<and> (\<exists>s'. handleKeydown example_viewport 39 (example_live 3 True 0)
              = Inr (\<lparr>defaultPrevented = True, propagationStopped = True, returned = Some 0\<rparr>, s')
          \<and> index s' = 1)
   \<and> (\<exists>s'. handleKeydown example_viewport 37 (example_live 3 True 0)
              = Inr (\<lparr>defaultPrevented = True, propagationStopped = True, returned = Some 0\<rparr>, s')
          \<and> index s' = 2)"
proof -
  have v: "rect_top example_viewport < innerHeight example_viewport"
      "0 < rect_top example_viewport + rect_height example_viewport"
    by (simp_all add: example_viewport_def)
  show ?thesis
    using handlers_respect_lock [where s = example_locked and v = example_viewport and k = 39
          and path = "[\<lparr>node_id = 7, matching = [''.next'']\<rparr>, \<lparr>node_id = 1, matching = []\<rparr>]"]
      handlers_respect_lock [where s = "example_live 3 True 0" and v = example_viewport
          and k = 13]
    by (simp add: example_locked_transitioning example_live_timer_fields v
          example_live_fields(1) example_live_loop toggle_each_length)
qed

subsection \<open>Autoplay\<close>

text \<open>
  C8. Starting autoplay twice is the same as starting it once, and stopping it twice the
  same as stopping it once. Starting is a no-op when autoplay is absent or disabled or a
  handle is already held. Two starts in a row add at most one autoplay timer; from a
  state whose pending autoplay timers are tracked by the held handle, a start leaves at
  most one autoplay timer pending and a stop leaves none; and in every reachable state
  at most one autoplay timer is pending, before a start and after it.
\<close>

theorem autoplay_idempotent:
  "startAutoplay (startAutoplay s) = startAutoplay s
   \<and> stopAutoplay (stopAutoplay s) = stopAutoplay s
   \<and> (autoplay (config s) = None \<or> (\<exists>a. autoplay (config s) = Some a \<and> \<not> enabled a)
        \<or> autoplayTimeout s \<noteq> None \<longrightarrow> startAutoplay s = s)
   \<and> length (pendingAdvances (startAutoplay (startAutoplay s))) \<le> Suc (length (pendingAdvances s))
   \<and> (autoplay_tracked s \<longrightarrow>
         autoplay_tracked (startAutoplay s) \<and> length (pendingAdvances (startAutoplay s)) \<le> 1
         \<and> autoplay_tracked (stopAutoplay s) \<and> pendingAdvances (stopAutoplay s) = [])
   \<and> (reachable s \<longrightarrow>
         length (pendingAdvances s) \<le> 1 \<and> length (pendingAdvances (startAutoplay s)) \<le> 1)"
proof (intro conjI impI)
  show "startAutoplay (startAutoplay s) = startAutoplay s"
    by (simp add: startAutoplay_def setTimeout_def split: option.splits)
  then show "length (pendingAdvances (startAutoplay (startAutoplay s))) \<le> Suc (length (pendingAdvances s))"
    by (simp add: startAutoplay_def setTimeout_def pendingAdvances_def split: option.splits)
  show "stopAutoplay (stopAutoplay s) = stopAutoplay s"
    by (simp add: stopAutoplay_def clearTimeout_def split: option.splits)
  show "startAutoplay s = s"
    if "autoplay (config s) = None \<or> (\<exists>a. autoplay (config s) = Some a \<and> \<not> enabled a)
        \<or> autoplayTimeout s \<noteq> None"
    using that by (auto simp add: startAutoplay_def split: option.splits)
  assume t: "autoplay_tracked s"
  then show "autoplay_tracked (startAutoplay s)"
    by (auto simp add: autoplay_tracked_def startAutoplay_def setTimeout_def pendingAdvances_def
          split: option.splits)
  from t show "length (pendingAdvances (startAutoplay s)) \<le> 1"
    by (auto simp add: autoplay_tracked_def startAutoplay_def setTimeout_def pendingAdvances_def
          split: option.splits)
  from t show "pendingAdvances (stopAutoplay s) = []"
    by (auto simp add: autoplay_tracked_def stopAutoplay_def clearTimeout_def pendingAdvances_def
          filter_empty_conv list_all_iff split: option.splits)
  then show "autoplay_tracked (stopAutoplay s)"
    by (simp add: autoplay_tracked_def stopAutoplay_def)
next
  assume "reachable s"
  then have t: "autoplay_tracked s"
    using reachable_timers_ok [of s] by (simp add: timers_ok_def)
  then show "length (pendingAdvances s) \<le> 1"
    by (auto simp add: autoplay_tracked_def split: option.splits)
  from t show "length (pendingAdvances (startAutoplay s)) \<le> 1"
    by (auto simp add: autoplay_tracked_def startAutoplay_def setTimeout_def pendingAdvances_def
          split: option.splits)
qed

lemma example_live_tracked: "autoplay_tracked (example_live n lp ms)"
  by (simp add: autoplay_tracked_def pendingAdvances_def example_live_timer_fields)

lemma example_live_reachable: "reachable (example_live n lp ms)"
  unfolding example_live_def by (intro reachable.intros)

theorem autoplay_idempotent_witness:
  "startAutoplay (example_live 3 True 0) = example_live 3 True 0
   \<and> autoplay_tracked (startAutoplay (example_live 3 True 0))
   \<and> length (pendingAdvances (startAutoplay (example_live 3 True 0))) \<le> 1
   \<and> pendingAdvances (stopAutoplay (example_live 3 True 0)) = []
   \<and> startAutoplay (startAutoplay (stopAutoplay (example_live 3 True 0)))
        = startAutoplay (stopAutoplay (example_live 3 True 0))
   \<and> stopAutoplay (stopAutoplay (example_live 3 True 0)) = stopAutoplay (example_live 3 True 0)"
  using autoplay_idempotent [where s = "example_live 3 True 0"]
    autoplay_idempotent [where s = "stopAutoplay (example_live 3 True 0)"]
  by (simp add: example_live_tracked example_live_reachable example_live_timer_fields
        pendingAdvances_def)

subsection \<open>The timer of the transition lock\<close>

text \<open>
  C4 (a new timer for the transition lock replaces the pending one, so that at most one
  is pending and an earlier one never clears the lock of a later transition) does not
  hold of the setter, which schedules the new timer without cancelling the one whose
  handle it overwrites. In the run with two index changes 500 ms apart and a transition of
  1000 ms, two such timers are pending (handles 2 and 4, due at 1000 and 1500) while the
  controller holds handle 4. At time 1000 the first one fires and clears the lock, 500 ms
  before the second transition is over: the timer due at 1500 is still pending, and a
  right-arrow key is accepted (the index goes from 2 to 0). \<^verbatim>\<open>destroy\<close> at the time of the
  second change cancels handle 4 only and leaves timer 2 pending.
\<close>

theorem transition_timers_stack:
  "map handle (pendingClears example_two_changes) = [2, 4]
   \<and> map due (pendingClears example_two_changes) = [1000, 1500]
   \<and> isTransitioning example_two_changes
   \<and> transitionTimeout example_two_changes = Some 4
   \<and> clock (elapse 500 example_two_changes) = 1000
   \<and> map_sum fst isTransitioning (fire 2 (elapse 500 example_two_changes)) = Inr False
   \<and> map_sum fst (map due \<circ> pendingClears) (fire 2 (elapse 500 example_two_changes)) = Inr [1500]
   \<and> index (state_of (fire 2 (elapse 500 example_two_changes))) = 2
   \<and> map_sum fst (index \<circ> snd)
        (handleKeydown example_viewport 39 (state_of (fire 2 (elapse 500 example_two_changes))))
       = Inr 0
   \<and> map_sum fst (map handle \<circ> pendingClears) (destroy example_two_changes) = Inr [2]"
  by code_simp

subsection \<open>Destruction\<close>

text \<open>
  C5 as stated (\<^verbatim>\<open>destroy\<close> never throws, also when \<^verbatim>\<open>layout\<close> never ran and when it is
  called a second time) fails: on a controller that was constructed and never laid out
  \<^verbatim>\<open>destroy\<close> throws a \<^verbatim>\<open>TypeError\<close>; on a laid out controller it returns, and the second
  call throws a \<^verbatim>\<open>TypeError\<close>.
\<close>

theorem destroy_throws_counterexample:
  "map_sum fst id (destroy (constructor 1 (example_config True 0))) = Inl TypeError
   \<and> \<not> isl (destroy (example_live 3 True 0))
   \<and> map_sum fst id (destroy (state_of (destroy (example_live 3 True 0)))) = Inl TypeError"
  by code_simp

lemma destroy_attached:
  assumes "style_attached s"
  shows "\<exists>s'. destroy s = Inr s' \<and> \<not> style_attached s' \<and> eventHandlers s' = []
           \<and> autoplayTimeout s' = None"
  using assms
  by (auto simp add: destroy_def style_attached_def stopAutoplay_def clearTimeout_def Let_def
        split: option.splits)

lemma destroy_detached:
  assumes "\<not> style_attached s"
  shows "\<exists>s'. destroy s = Inl (TypeError, s') \<and> eventHandlers s' = []
           \<and> autoplayTimeout s' = None"
  using assms
  by (auto simp add: destroy_def style_attached_def stopAutoplay_def clearTimeout_def Let_def
        split: option.splits)

lemma styleNode_startAutoplay: "styleNode (startAutoplay s) = styleNode s"
  by (simp add: startAutoplay_def setTimeout_def split: option.splits)

lemma styleNode_on: "styleNode (on n e c s) = styleNode s"
  by (simp add: on_def)

lemma styleNode_setupAutoplay: "styleNode (setupAutoplay pg s) = styleNode s"
  by (simp add: setupAutoplay_def styleNode_on styleNode_startAutoplay Let_def
        split: option.splits)

lemma styleNode_setupControls: "styleNode (setupControls pg s) = styleNode s"
  by (simp add: setupControls_def styleNode_on split: option.splits)

lemma styleNode_setActiveElement:
  "setActiveElement k s = Inr s' \<Longrightarrow> styleNode s' = styleNode s"
  by (auto simp add: setActiveElement_def Let_def split: option.splits)

lemma setStyles_attaches: "setStyles s = Inr s' \<Longrightarrow> style_attached s'"
  by (auto simp add: setStyles_def style_attached_def Let_def split: option.splits if_splits)

lemma layout_attaches:
  assumes "layout pg s0 = Inr s"
  shows "style_attached s"
proof -
  from assms obtain s1 s2 where s1: "setStyles s0 = Inr s1"
    and s2: "setActiveElement 0 (s1\<lparr>elements := Some (getElements pg s1)\<rparr>) = Inr s2"
    and s: "s = on Window ''resize'' HandleResize
                  (setupKeydown (setupControls pg (setupAutoplay pg s2)))"
    by (auto simp add: layout_def split: sum.splits)
  have "styleNode s = styleNode s2"
    unfolding s
    by (simp add: styleNode_on setupKeydown_def styleNode_setupControls styleNode_setupAutoplay)
  also have "\<dots> = styleNode s1"
    using styleNode_setActiveElement [OF s2] by simp
  finally show ?thesis
    using setStyles_attaches [OF s1] by (simp add: style_attached_def)
qed

lemma remove_each: "foldl (\<lambda>ls h. remove1 h ls) (xs @ ys) xs = ys"
  by (induction xs) simp_all

lemma remove_each_all: "foldl (\<lambda>ls h. remove1 h ls) xs xs = []"
  using remove_each [of xs "[]"] by simp

lemma listeners_tracked_update [simp]:
  "listeners_tracked (s\<lparr>index := a\<rparr>) = listeners_tracked s"
  "listeners_tracked (s\<lparr>elements := b\<rparr>) = listeners_tracked s"
  "listeners_tracked (s\<lparr>indicators := c\<rparr>) = listeners_tracked s"
  "listeners_tracked (s\<lparr>isTransitioning := d\<rparr>) = listeners_tracked s"
  "listeners_tracked (s\<lparr>transitionTimeout := e\<rparr>) = listeners_tracked s"
  "listeners_tracked (s\<lparr>isInteracting := f\<rparr>) = listeners_tracked s"
  "listeners_tracked (s\<lparr>autoplayTimeout := g\<rparr>) = listeners_tracked s"
  "listeners_tracked (s\<lparr>styleNode := h\<rparr>) = listeners_tracked s"
  "listeners_tracked (s\<lparr>rootClassList := i\<rparr>) = listeners_tracked s"
  "listeners_tracked (s\<lparr>timers := j\<rparr>) = listeners_tracked s"
  "listeners_tracked (s\<lparr>nextHandle := n\<rparr>) = listeners_tracked s"
  "listeners_tracked (s\<lparr>clock := k\<rparr>) = listeners_tracked s"
  "listeners_tracked (s\<lparr>console := l\<rparr>) = listeners_tracked s"
  "listeners_tracked (s\<lparr>callbackRuns := m\<rparr>) = listeners_tracked s"
  by (simp_all add: listeners_tracked_def)

lemma listeners_tracked_clearTimeout:
  "listeners_tracked (clearTimeout h s) = listeners_tracked s"
  by (simp add: clearTimeout_def split: option.splits)

lemma listeners_tracked_stopAutoplay:
  "listeners_tracked (stopAutoplay s) = listeners_tracked s"
  by (simp add: stopAutoplay_def listeners_tracked_clearTimeout)

lemma listeners_tracked_startAutoplay:
  "listeners_tracked (startAutoplay s) = listeners_tracked s"
  by (simp add: startAutoplay_def setTimeout_def split: option.splits)

lemma listeners_tracked_on:
  "listeners_tracked s \<Longrightarrow> listeners_tracked (on n e c s)"
  by (simp add: on_def listeners_tracked_def)

lemma listeners_tracked_setActiveElement:
  "listeners_tracked (state_of (setActiveElement k s)) = listeners_tracked s"
  by (simp add: setActiveElement_def state_of_def Let_def split: option.splits)

lemma listeners_tracked_after_assignment:
  "listeners_tracked (state_of (after_assignment s)) = listeners_tracked s"
proof (cases "setActiveElement (index s) s")
  case (Inl e)
  with listeners_tracked_setActiveElement [of "index s" s] show ?thesis
    by (simp add: after_assignment_def state_of_def)
next
  case (Inr s1)
  with listeners_tracked_setActiveElement [of "index s" s]
  have s1: "listeners_tracked s1 = listeners_tracked s"
    by (simp add: state_of_def)
  define s2 where "s2 = (if transitionDuration (config s1) \<noteq> 0
             then (let (h, s') = setTimeout ClearTransition (transitionDuration (config s1))
                                   (s1\<lparr>isTransitioning := True\<rparr>)
                   in s'\<lparr>transitionTimeout := Some h\<rparr>)
             else s1)"
  have eq: "after_assignment s
              = Inr (if \<not> isInteracting s2 then startAutoplay (stopAutoplay s2) else s2)"
    by (simp add: after_assignment_def Inr s2_def Let_def)
  have "listeners_tracked s2 = listeners_tracked s1"
    by (simp add: s2_def setTimeout_def Let_def)
  then show ?thesis
    unfolding eq
    by (simp add: state_of_def listeners_tracked_startAutoplay listeners_tracked_stopAutoplay s1)
qed

lemma listeners_tracked_set_index:
  "listeners_tracked (state_of (set_index R s)) = listeners_tracked s"
proof -
  have a: "listeners_tracked (state_of (after_assignment (s\<lparr>index := k\<rparr>)))
             = listeners_tracked s" for k
    by (simp add: listeners_tracked_after_assignment)
  have b: "state_of (Inr s) = s" "state_of (Inl (TypeError, s)) = s"
    by (simp_all add: state_of_def)
  show ?thesis
    by (simp add: set_index_def a b split: option.splits)
qed

lemma listeners_tracked_layout:
  assumes "listeners_tracked s"
  shows "listeners_tracked (state_of (layout pg s))"
proof (cases "setStyles s")
  case (Inl e)
  then have "state_of (layout pg s) = s\<lparr>rootClassList := List.insert ''gallery-root'' (rootClassList s)\<rparr>"
    by (auto simp add: layout_def state_of_def setStyles_def Let_def
          split: option.splits if_splits)
  with assms show ?thesis by simp
next
  case (Inr s1)
  then have s1: "listeners_tracked s1"
    using assms by (auto simp add: setStyles_def Let_def split: option.splits if_splits)
  let ?t = "s1\<lparr>elements := Some (getElements pg s1)\<rparr>"
  have t: "listeners_tracked (state_of (setActiveElement 0 ?t))"
    using s1 by (simp add: listeners_tracked_setActiveElement)
  show ?thesis
  proof (cases "setActiveElement 0 ?t")
    case (Inl e)
    with t Inr show ?thesis by (simp add: layout_def state_of_def)
  next
    case s2: (Inr s2)
    with t have "listeners_tracked s2" by (simp add: state_of_def)
    then have "listeners_tracked (setupAutoplay pg s2)"
      by (simp add: setupAutoplay_def listeners_tracked_on listeners_tracked_startAutoplay Let_def
            split: option.splits)
    then have "listeners_tracked (setupControls pg (setupAutoplay pg s2))"
      by (simp add: setupControls_def listeners_tracked_on split: option.splits)
    then show ?thesis
      using Inr s2 by (simp add: layout_def state_of_def setupKeydown_def listeners_tracked_on)
  qed
qed

lemma listeners_tracked_handleKeydown:
  "listeners_tracked (state_of (map_sum id snd (handleKeydown v k s))) = listeners_tracked s"
proof -
  have a: "listeners_tracked (state_of (map_sum id snd
              (case r of Inl e \<Rightarrow> Inl e | Inr s1 \<Rightarrow> Inr (x, s1))))
            = listeners_tracked (state_of r)" for r :: outcome and x :: key_effects
    by (cases r) (simp_all add: state_of_def)
  show ?thesis
    by (simp add: handleKeydown_def Let_def a listeners_tracked_set_index
          state_of_def [of "Inr _"])
qed

lemma listeners_tracked_jump_to_indicator:
  "listeners_tracked (state_of (jump_to_indicator target i els s)) = listeners_tracked s"
proof (induction els arbitrary: i s)
  case Nil
  then show ?case by (simp add: state_of_def)
next
  case (Cons el els)
  show ?case
  proof (cases "target = el")
    case False
    with Cons show ?thesis by simp
  next
    case True
    have k: "listeners_tracked (state_of (set_index (int i) s)) = listeners_tracked s"
      by (rule listeners_tracked_set_index)
    show ?thesis
    proof (cases "set_index (int i) s")
      case (Inl e)
      with k True show ?thesis by simp
    next
      case (Inr s1)
      with k have "listeners_tracked s1 = listeners_tracked s" by (simp add: state_of_def)
      with Cons.IH [of "Suc i" s1] Inr True show ?thesis by simp
    qed
  qed
qed

lemma listeners_tracked_prevented:
  "listeners_tracked (state_of (map_sum id snd (prevented r))) = listeners_tracked (state_of r)"
  by (cases r) (simp_all add: prevented_def state_of_def)

lemma listeners_tracked_fire:
  "listeners_tracked (state_of (fire h s)) = listeners_tracked s"
  by (simp add: fire_def Let_def state_of_def [of "Inr _"] listeners_tracked_set_index
        split: option.splits timer_action.splits)

lemma listeners_tracked_handleControlsClick:
  assumes "listeners_tracked s"
  shows "listeners_tracked (state_of (map_sum id snd (handleControlsClick path s)))"
  using assms
  by (auto simp add: handleControlsClick_def state_of_def [of "Inl _"] state_of_def [of "Inr _"]
        intro!: iffD2 [OF listeners_tracked_prevented] iffD2 [OF listeners_tracked_set_index]
          iffD2 [OF listeners_tracked_jump_to_indicator]
        split: option.splits sum.splits)

lemma timers_clearTimeout:
  "timers (clearTimeout h s) = filter (\<lambda>t. Some (handle t) \<noteq> h) (timers s)"
  by (cases h) (simp_all add: clearTimeout_def)

lemma destroy_cleanup:
  "\<exists>s3. eventHandlers s3 = [] \<and> autoplayTimeout s3 = None
     \<and> timers s3 = filter (\<lambda>t. Some (handle t) \<noteq> autoplayTimeout s
                                \<and> Some (handle t) \<noteq> transitionTimeout s) (timers s)
     \<and> listeners s3 = foldl (\<lambda>ls h. remove1 h ls) (listeners s) (eventHandlers s)
     \<and> styleNode s3 = styleNode s
     \<and> destroy s =
          (case styleNode s of
             None \<Rightarrow> Inl (TypeError, s3)
           | Some sn \<Rightarrow>
               (case parentNode sn of
                  None \<Rightarrow> Inl (TypeError, s3)
                | Some p \<Rightarrow> Inr (s3\<lparr>styleNode := Some (sn\<lparr>parentNode := None\<rparr>)\<rparr>)))"
proof -
  define s1 where "s1 = stopAutoplay s"
  define s2 where "s2 = clearTimeout (transitionTimeout s1) s1"
  define s3 where "s3 = s2\<lparr>listeners := foldl (\<lambda>ls h. remove1 h ls) (listeners s2) (eventHandlers s2),
                             eventHandlers := []\<rparr>"
  have d: "destroy s =
          (case styleNode s3 of
             None \<Rightarrow> Inl (TypeError, s3)
           | Some sn \<Rightarrow>
               (case parentNode sn of
                  None \<Rightarrow> Inl (TypeError, s3)
                | Some p \<Rightarrow> Inr (s3\<lparr>styleNode := Some (sn\<lparr>parentNode := None\<rparr>)\<rparr>)))"
    unfolding destroy_def s1_def s2_def s3_def by (simp only: Let_def)
  have f1: "timers s1 = filter (\<lambda>t. Some (handle t) \<noteq> autoplayTimeout s) (timers s)"
      "transitionTimeout s1 = transitionTimeout s" "listeners s1 = listeners s"
      "eventHandlers s1 = eventHandlers s" "styleNode s1 = styleNode s"
      "autoplayTimeout s1 = None"
    by (simp_all add: s1_def stopAutoplay_def timers_clearTimeout)
       (simp_all add: clearTimeout_def split: option.splits)
  have f2: "timers s2 = filter (\<lambda>t. Some (handle t) \<noteq> transitionTimeout s) (timers s1)"
      "listeners s2 = listeners s" "eventHandlers s2 = eventHandlers s"
      "styleNode s2 = styleNode s" "autoplayTimeout s2 = None"
    using f1 by (simp_all add: s2_def timers_clearTimeout)
       (simp_all add: clearTimeout_def split: option.splits)
  have f3: "eventHandlers s3 = []" "autoplayTimeout s3 = None"
      "timers s3 = filter (\<lambda>t. Some (handle t) \<noteq> autoplayTimeout s
                                \<and> Some (handle t) \<noteq> transitionTimeout s) (timers s)"
      "listeners s3 = foldl (\<lambda>ls h. remove1 h ls) (listeners s) (eventHandlers s)"
      "styleNode s3 = styleNode s"
    using f1 f2 by (simp_all add: s3_def)
  from d f3 show ?thesis
    by (intro exI [of _ s3]) simp
qed

lemma listeners_tracked_destroy:
  assumes "listeners_tracked s"
  shows "listeners_tracked (state_of (destroy s))"
proof -
  obtain s3 where s3: "eventHandlers s3 = []"
      "listeners s3 = foldl (\<lambda>ls h. remove1 h ls) (listeners s) (eventHandlers s)"
      "destroy s =
          (case styleNode s of
             None \<Rightarrow> Inl (TypeError, s3)
           | Some sn \<Rightarrow>
               (case parentNode sn of
                  None \<Rightarrow> Inl (TypeError, s3)
                | Some p \<Rightarrow> Inr (s3\<lparr>styleNode := Some (sn\<lparr>parentNode := None\<rparr>)\<rparr>)))"
    using destroy_cleanup [of s] by blast
  have "listeners_tracked s3"
    using assms s3(1,2) by (simp add: listeners_tracked_def remove_each_all)
  then show ?thesis
    by (simp add: s3(3) state_of_def split: option.splits)
qed

lemma reachable_listeners_tracked: "reachable s \<Longrightarrow> listeners_tracked s"
proof (induction rule: reachable.induct)
  case (constructed r cfg)
  show ?case by (simp add: listeners_tracked_def constructor_def)
next
  case (laid_out s pg)
  then show ?case by (simp add: listeners_tracked_layout)
next
  case (index_set s R)
  then show ?case by (simp add: listeners_tracked_set_index)
next
  case (started s)
  then show ?case by (simp add: listeners_tracked_startAutoplay)
next
  case (stopped s)
  then show ?case by (simp add: listeners_tracked_stopAutoplay)
next
  case (mouse_over s)
  then show ?case by (simp add: onMouseover_def listeners_tracked_stopAutoplay)
next
  case (mouse_out s)
  then show ?case
    by (simp add: onMouseout_def executeCallback_def listeners_tracked_startAutoplay
          split: callback.splits)
next
  case (key_down s v k)
  then show ?case by (simp add: listeners_tracked_handleKeydown)
next
  case (clicked s path)
  then show ?case by (simp add: listeners_tracked_handleControlsClick)
next
  case (time_passed s ms)
  then show ?case by (simp add: elapse_def)
next
  case (timer_fired s h)
  then show ?case by (simp add: listeners_tracked_fire)
next
  case (destroyed s)
  then show ?case by (simp add: listeners_tracked_destroy)
qed

lemma tracked_advances_cancelled:
  assumes "autoplay_tracked s"
  shows "filter (\<lambda>t. action t = AdvanceIndex)
           (filter (\<lambda>t. Some (handle t) \<noteq> autoplayTimeout s
                        \<and> Some (handle t) \<noteq> transitionTimeout s) (timers s)) = []"
  using assms
  by (auto simp add: autoplay_tracked_def pendingAdvances_def filter_empty_conv list_all_iff
        split: option.splits)

lemma example_live_attached: "style_attached (example_live n lp ms)"
  by (simp add: example_live_def state_of_def layout_def example_page_def constructor_def
      example_config_def setStyles_def getElements_def setActiveElement_def setupAutoplay_def
      setupControls_def setupKeydown_def on_def getIndicators_def startAutoplay_def
      setTimeout_def Let_def style_attached_def)

text \<open>
  C5, amended. \<^verbatim>\<open>destroy\<close> returns normally when the style node exists and has a parent,
  as it does after every \<^verbatim>\<open>layout\<close> that returned, and it then detaches the style node.
  Otherwise (no style node was ever created, or it has been detached) it throws a
  \<^verbatim>\<open>TypeError\<close>; in particular the call after a \<^verbatim>\<open>destroy\<close> that returned always throws.
  Either way the clean-up before the style node has been done: no autoplay handle is
  held, the timers left in the table are the ones whose handle is neither the autoplay
  handle nor the transition handle the controller held, no listener is tracked, and each
  tracked listener has been removed from the listeners of the browser. In a reachable
  state this leaves no listener of the controller registered and no autoplay timer
  pending.
\<close>

theorem destroy_outcome:
  "(style_attached s \<longrightarrow>
      (\<exists>s'. destroy s = Inr s' \<and> \<not> style_attached s' \<and> eventHandlers s' = []
         \<and> autoplayTimeout s' = None
         \<and> timers s' = filter (\<lambda>t. Some (handle t) \<noteq> autoplayTimeout s
                                    \<and> Some (handle t) \<noteq> transitionTimeout s) (timers s)
         \<and> listeners s' = foldl (\<lambda>ls h. remove1 h ls) (listeners s) (eventHandlers s)
         \<and> (reachable s \<longrightarrow> listeners s' = [] \<and> pendingAdvances s' = [])))
   \<and> (\<not> style_attached s \<longrightarrow>
      (\<exists>s'. destroy s = Inl (TypeError, s') \<and> eventHandlers s' = []
         \<and> autoplayTimeout s' = None
         \<and> timers s' = filter (\<lambda>t. Some (handle t) \<noteq> autoplayTimeout s
                                    \<and> Some (handle t) \<noteq> transitionTimeout s) (timers s)
         \<and> listeners s' = foldl (\<lambda>ls h. remove1 h ls) (listeners s) (eventHandlers s)
         \<and> (reachable s \<longrightarrow> listeners s' = [] \<and> pendingAdvances s' = [])))
   \<and> (\<forall>pg s0. layout pg s0 = Inr s \<longrightarrow> style_attached s)
   \<and> (\<forall>s'. destroy s = Inr s' \<longrightarrow> (\<exists>s''. destroy s' = Inl (TypeError, s'')))"
proof -
  obtain s3 where s3: "eventHandlers s3 = []" "autoplayTimeout s3 = None"
      "timers s3 = filter (\<lambda>t. Some (handle t) \<noteq> autoplayTimeout s
                                \<and> Some (handle t) \<noteq> transitionTimeout s) (timers s)"
      "listeners s3 = foldl (\<lambda>ls h. remove1 h ls) (listeners s) (eventHandlers s)"
      "styleNode s3 = styleNode s"
      "destroy s =
          (case styleNode s of
             None \<Rightarrow> Inl (TypeError, s3)
           | Some sn \<Rightarrow>
               (case parentNode sn of
                  None \<Rightarrow> Inl (TypeError, s3)
                | Some p \<Rightarrow> Inr (s3\<lparr>styleNode := Some (sn\<lparr>parentNode := None\<rparr>)\<rparr>)))"
    using destroy_cleanup [of s] by blast
  have r: "reachable s \<longrightarrow> listeners s3 = [] \<and> pendingAdvances s3 = []"
  proof
    assume a: "reachable s"
    then have "listeners s = eventHandlers s"
      using reachable_listeners_tracked [of s] by (simp add: listeners_tracked_def)
    then have l: "listeners s3 = []"
      by (simp add: s3(4) remove_each_all)
    have "autoplay_tracked s"
      using a reachable_timers_ok [of s] by (simp add: timers_ok_def)
    then have "pendingAdvances s3 = []"
      unfolding pendingAdvances_def s3(3) by (rule tracked_advances_cancelled)
    with l show "listeners s3 = [] \<and> pendingAdvances s3 = []" ..
  qed
  have c1: "\<exists>s'. destroy s = Inr s' \<and> \<not> style_attached s' \<and> eventHandlers s' = []
         \<and> autoplayTimeout s' = None
         \<and> timers s' = filter (\<lambda>t. Some (handle t) \<noteq> autoplayTimeout s
                                    \<and> Some (handle t) \<noteq> transitionTimeout s) (timers s)
         \<and> listeners s' = foldl (\<lambda>ls h. remove1 h ls) (listeners s) (eventHandlers s)
         \<and> (reachable s \<longrightarrow> listeners s' = [] \<and> pendingAdvances s' = [])"
    if "style_attached s"
  proof -
    from that obtain sn p where sn: "styleNode s = Some sn" "parentNode sn = Some p"
      by (auto simp add: style_attached_def split: option.splits)
    let ?s' = "s3\<lparr>styleNode := Some (sn\<lparr>parentNode := None\<rparr>)\<rparr>"
    have "destroy s = Inr ?s'"
      by (simp add: s3(6) sn)
    moreover have "\<not> style_attached ?s'"
      by (simp add: style_attached_def)
    moreover have "pendingAdvances ?s' = pendingAdvances s3"
      by (simp add: pendingAdvances_def)
    ultimately show ?thesis
      using s3(1-4) r by (intro exI [of _ ?s']) simp
  qed
  have c2: "\<exists>s'. destroy s = Inl (TypeError, s') \<and> eventHandlers s' = []
         \<and> autoplayTimeout s' = None
         \<and> timers s' = filter (\<lambda>t. Some (handle t) \<noteq> autoplayTimeout s
                                    \<and> Some (handle t) \<noteq> transitionTimeout s) (timers s)
         \<and> listeners s' = foldl (\<lambda>ls h. remove1 h ls) (listeners s) (eventHandlers s)
         \<and> (reachable s \<longrightarrow> listeners s' = [] \<and> pendingAdvances s' = [])"
    if "\<not> style_attached s"
  proof -
    have "destroy s = Inl (TypeError, s3)"
      using that by (auto simp add: s3(6) style_attached_def split: option.splits)
    then show ?thesis
      using s3(1-4) r by (intro exI [of _ s3]) simp
  qed
  have c3: "\<forall>pg s0. layout pg s0 = Inr s \<longrightarrow> style_attached s"
    using layout_attaches by blast
  have c4: "\<forall>s'. destroy s = Inr s' \<longrightarrow> (\<exists>s''. destroy s' = Inl (TypeError, s''))"
  proof (intro allI impI)
    fix s'
    assume d: "destroy s = Inr s'"
    have "style_attached s"
      using d destroy_detached [of s] by (cases "style_attached s") auto
    then have "\<not> style_attached s'"
      using d destroy_attached [of s] by auto
    then show "\<exists>s''. destroy s' = Inl (TypeError, s'')"
      using destroy_detached [of s'] by blast
  qed
  from c1 c2 c3 c4 show ?thesis by blast
qed

lemma example_live_handlers:
  "eventHandlers (example_live n lp ms)
     = [(Node 1, ''click'', HandleControlsClick), (Window, ''keydown'', HandleKeydown),
        (Window, ''resize'', HandleResize)]"
  "listeners (example_live n lp ms) = eventHandlers (example_live n lp ms)"
  "transitionTimeout (example_live n lp ms) = None"
  by (simp_all add: example_live_def state_of_def layout_def example_page_def constructor_def
      example_config_def setStyles_def getElements_def setActiveElement_def setupAutoplay_def
      setupControls_def setupKeydown_def on_def getIndicators_def startAutoplay_def
      setTimeout_def Let_def)

theorem destroy_outcome_witness:
  "(\<exists>s'. destroy (example_live 3 True 0) = Inr s' \<and> \<not> style_attached s'
       \<and> eventHandlers s' = [] \<and> autoplayTimeout s' = None
       \<and> timers (example_live 3 True 0) = [\<lparr>handle = 1, action = AdvanceIndex, due = 500\<rparr>]
       \<and> timers s' = []
       \<and> length (listeners (example_live 3 True 0)) = 3
       \<and> listeners s' = [])
   \<and> (\<exists>s'. destroy (constructor 1 (example_config True 0)) = Inl (TypeError, s')
       \<and> eventHandlers s' = [] \<and> autoplayTimeout s' = None \<and> timers s' = []
       \<and> listeners s' = [])"
proof -
  let ?C = "constructor 1 (example_config True 0)"
  have n: "\<not> style_attached ?C"
    by (simp add: style_attached_def constructor_def)
  have c: "timers ?C = []" "listeners ?C = []" "eventHandlers ?C = []"
    by (simp_all add: constructor_def)
  obtain t where t: "destroy ?C = Inl (TypeError, t)" "eventHandlers t = []"
      "autoplayTimeout t = None"
      "timers t = filter (\<lambda>t. Some (handle t) \<noteq> autoplayTimeout ?C
                                \<and> Some (handle t) \<noteq> transitionTimeout ?C) (timers ?C)"
      "listeners t = foldl (\<lambda>ls h. remove1 h ls) (listeners ?C) (eventHandlers ?C)"
    using destroy_outcome [where s = ?C] n by blast
  have "timers t = []" "listeners t = []"
    using t(4,5) unfolding c by simp_all
  with t have b: "\<exists>s'. destroy ?C = Inl (TypeError, s')
       \<and> eventHandlers s' = [] \<and> autoplayTimeout s' = None \<and> timers s' = []
       \<and> listeners s' = []"
    by blast
  have a: "\<exists>s'. destroy (example_live 3 True 0) = Inr s' \<and> \<not> style_attached s'
       \<and> eventHandlers s' = [] \<and> autoplayTimeout s' = None
       \<and> timers (example_live 3 True 0) = [\<lparr>handle = 1, action = AdvanceIndex, due = 500\<rparr>]
       \<and> timers s' = []
       \<and> length (listeners (example_live 3 True 0)) = 3
       \<and> listeners s' = []"
    using destroy_outcome [where s = "example_live 3 True 0"]
    by (simp add: example_live_attached example_live_timer_fields example_live_handlers
          example_live_reachable) blast
  from a b show ?thesis ..
qed

end
